theory Spec2Isabelle
  imports Complex_Main "HOL-Library.AList" "HOL-Library.Word"
begin

section \<open>MCParticleHitMatching: matching hits to truth particles\<close>

text \<open>
  The module \<^verbatim>\<open>MCParticleHitMatching_module.cc\<close> has one operation,
  \<^verbatim>\<open>t0::MCParticleHitMatching::produce\<close>. For every hit of an event it asks the
  backtracker for the hit's contribution records, sums energy and number of electrons per
  track id, remembers which track id holds the running maximum, resolves every track id to
  a position in the particle list, and adds one association per resolved track id.

  Numbers. Energies and electron counts are \<^verbatim>\<open>float\<close> and \<^verbatim>\<open>double\<close> in the
  source. They are modelled as real numbers. The embedding comes twice: first with exact
  arithmetic, for the properties that rounding does not touch, then with the roundings of
  the stores written out, for the property that depends on them. The one place where IEEE
  arithmetic differs in kind, division by zero, is written out in \<open>fdiv\<close>. Track ids are \<^verbatim>\<open>int\<close> and are only
  compared and used as keys, so they are mathematical integers. A position in the particle
  list is a \<^verbatim>\<open>size_t\<close> that the code narrows to \<^verbatim>\<open>int\<close> and later widens to the
  \<^verbatim>\<open>size_t\<close> key of an \<^verbatim>\<open>art::Ptr\<close>; both conversions are modelled on words.
\<close>

subsection \<open>Data\<close>

text \<open>\<^verbatim>\<open>sim::TrackIDE\<close>, the backtracker's contribution record (fields read by the module).\<close>

record TrackIDE =
  trackID :: int
  energy :: real
  numElectrons :: real

text \<open>\<^verbatim>\<open>struct TrackIDEinfo { float E; float NumElectrons; }\<close>\<close>

record TrackIDEinfo =
  E :: real
  NumElectrons :: real

text \<open>\<^verbatim>\<open>simb::MCParticle\<close>: the module reads \<^verbatim>\<open>TrackId()\<close> only.\<close>

record MCParticle =
  TrackId :: int

text \<open>The value of a floating-point quotient: a number, an infinity, or not-a-number.\<close>

datatype fval = Fin real | PosInf | NegInf | NaN

definition fdiv :: "real \<Rightarrow> real \<Rightarrow> fval" where
  "fdiv a b = (if b \<noteq> 0 then Fin (a / b)
               else if a = 0 then NaN
               else if 0 < a then PosInf else NegInf)"

text \<open>
  \<^verbatim>\<open>anab::BackTrackerHitMatchingData\<close>. Its fields \<^verbatim>\<open>energy\<close> and \<^verbatim>\<open>numElectrons\<close>
  carry the prefix \<open>bthmd_\<close> here, since \<open>TrackIDE\<close> has fields of the same names.
\<close>

record BackTrackerHitMatchingData =
  ideFraction :: fval
  isMaxIDE :: bool
  ideNFraction :: fval
  isMaxIDEN :: bool
  bthmd_energy :: real
  bthmd_numElectrons :: real

text \<open>
  One element of \<^verbatim>\<open>art::Assns<recob::Hit, simb::MCParticle, BackTrackerHitMatchingData>\<close>:
  the keys of the two \<^verbatim>\<open>art::Ptr\<close>s and the metadata.
\<close>

record Assn =
  hitKey :: nat
  mcpartKey :: nat
  bthmd :: BackTrackerHitMatchingData

text \<open>
  The event as \<^verbatim>\<open>produce\<close> reads it: the real-data flag, the particle collection under
  \<^verbatim>\<open>fMCParticleModuleLabel\<close> and the hit collection under \<^verbatim>\<open>fHitModuleLabel\<close>, each
  \<open>None\<close> when the event holds no such product. The backtracker service is the function
  \<^verbatim>\<open>HitToTrackID\<close>, passed separately.
\<close>

record 'h Event =
  isRealData :: bool
  mcparticles :: "MCParticle list option"
  hits :: "'h list option"

text \<open>
  What \<^verbatim>\<open>produce\<close> leaves behind when it returns: the relation given to \<^verbatim>\<open>evt.put\<close>
  (\<open>None\<close> when \<^verbatim>\<open>put\<close> is never called) and the lines written to \<^verbatim>\<open>std::cerr\<close>.
  \<^verbatim>\<open>getValidHandle\<close> throws when the product is missing; that is the error value.
\<close>

datatype exn = ProductNotFound

record Outcome =
  put :: "Assn list option"
  cerr :: "string list"

text \<open>The local variables of \<^verbatim>\<open>produce\<close> and the member \<^verbatim>\<open>fTrkIDECollector\<close>.\<close>

record Locals =
  maxe :: real
  tote :: real
  maxtrkid :: int
  maxn :: real
  totn :: real
  maxntrkid :: int
  trkid_lookup :: "int \<rightharpoonup> int"
  fTrkIDECollector :: "(int \<times> TrackIDEinfo) list"
  MCPartHitassn :: "Assn list"

subsection \<open>The two hash maps\<close>

text \<open>
  \<^verbatim>\<open>fTrkIDECollector\<close> is an \<^verbatim>\<open>unordered_map<int, TrackIDEinfo>\<close> that the code also
  iterates, so it is an association list with distinct keys. A new key goes to the end;
  the list order stands for the iteration order of the hash map, which C++ leaves open.
  The properties below speak of the associations of a hit through their number, their
  members and sums over them, none of which depends on that order.
  \<^verbatim>\<open>operator[]\<close> on a missing key inserts a value-initialised element, all zero.
\<close>

definition collector_at :: "(int \<times> TrackIDEinfo) list \<Rightarrow> int \<Rightarrow> TrackIDEinfo" where
  "collector_at c k = (case map_of c k of Some v \<Rightarrow> v | None \<Rightarrow> \<lparr>E = 0, NumElectrons = 0\<rparr>)"

text \<open>\<^verbatim>\<open>fTrkIDECollector[k].E += x\<close>\<close>

definition add_E :: "int \<Rightarrow> real \<Rightarrow> (int \<times> TrackIDEinfo) list \<Rightarrow> (int \<times> TrackIDEinfo) list" where
  "add_E k x c = AList.update k ((collector_at c k)\<lparr>E := E (collector_at c k) + x\<rparr>) c"

text \<open>\<^verbatim>\<open>fTrkIDECollector[k].NumElectrons += x\<close>\<close>

definition add_NumElectrons ::
  "int \<Rightarrow> real \<Rightarrow> (int \<times> TrackIDEinfo) list \<Rightarrow> (int \<times> TrackIDEinfo) list" where
  "add_NumElectrons k x c =
     AList.update k ((collector_at c k)\<lparr>NumElectrons := NumElectrons (collector_at c k) + x\<rparr>) c"

text \<open>
  \<^verbatim>\<open>trkid_lookup\<close> is an \<^verbatim>\<open>unordered_map<int,int>\<close> that is only searched and indexed: a
  map. Reading it with \<^verbatim>\<open>operator[]\<close> inserts 0 under a missing key.
\<close>

definition lookup_at :: "(int \<rightharpoonup> int) \<Rightarrow> int \<Rightarrow> int \<times> (int \<rightharpoonup> int)" where
  "lookup_at m k = (case m k of Some v \<Rightarrow> (v, m) | None \<Rightarrow> (0, m(k \<mapsto> 0)))"

subsection \<open>Integer conversions\<close>

text \<open>\<^verbatim>\<open>(int)i_p\<close>: a 64-bit \<^verbatim>\<open>size_t\<close> narrowed to a 32-bit signed \<^verbatim>\<open>int\<close>.\<close>

definition to_int :: "nat \<Rightarrow> int" where
  "to_int i_p = sint (word_of_nat i_p :: 32 word)"

text \<open>The \<^verbatim>\<open>int\<close> \<^verbatim>\<open>mcpart_i\<close> passed as the \<^verbatim>\<open>size_t\<close> key of an \<^verbatim>\<open>art::Ptr\<close>.\<close>

definition to_size_t :: "int \<Rightarrow> nat" where
  "to_size_t i = unat (word_of_int i :: 64 word)"

subsection \<open>Resolving a track id (lines 159 to 166)\<close>

text \<open>
  The \<^verbatim>\<open>while\<close> loop over the particle list: it stores the position of the first
  particle whose \<^verbatim>\<open>TrackId()\<close> is the one looked for and breaks. The result is the value
  of \<^verbatim>\<open>i_p\<close> after the loop and the updated map.
\<close>

function scan_mcpartList ::
  "MCParticle list \<Rightarrow> int \<Rightarrow> nat \<Rightarrow> (int \<rightharpoonup> int) \<Rightarrow> nat \<times> (int \<rightharpoonup> int)" where
  "scan_mcpartList mcpartList tid i_p m =
     (if i_p < length mcpartList
      then (if TrackId (mcpartList ! i_p) = tid then (i_p, m(tid \<mapsto> to_int i_p))
            else scan_mcpartList mcpartList tid (Suc i_p) m)
      else (i_p, m))"
  by pat_completeness auto
termination
  by (relation "measure (\<lambda>(mcpartList, tid, i_p, m). length mcpartList - i_p)") auto

declare scan_mcpartList.simps [simp del]

definition find_mcparticle :: "MCParticle list \<Rightarrow> int \<Rightarrow> (int \<rightharpoonup> int) \<Rightarrow> (int \<rightharpoonup> int)" where
  "find_mcparticle mcpartList tid m =
     (if m tid = None
      then (let (i_p, m') = scan_mcpartList mcpartList tid 0 m
            in if i_p = length mcpartList then m'(tid \<mapsto> - 1) else m')
      else m)"

subsection \<open>The loop over the contribution records of one hit (lines 146 to 168)\<close>

definition trkide_step :: "MCParticle list \<Rightarrow> TrackIDE \<Rightarrow> Locals \<Rightarrow> Locals" where
  "trkide_step mcpartList t s =
     (let c1 = add_E (trackID t) (energy t) (fTrkIDECollector s);
          tote1 = tote s + energy t;
          e1 = E (collector_at c1 (trackID t));
          maxe1 = (if e1 > maxe s then e1 else maxe s);
          maxtrkid1 = (if e1 > maxe s then trackID t else maxtrkid s);
          c2 = add_NumElectrons (trackID t) (numElectrons t) c1;
          totn1 = totn s + numElectrons t;
          n1 = NumElectrons (collector_at c2 (trackID t));
          maxn1 = (if n1 > maxn s then n1 else maxn s);
          maxntrkid1 = (if n1 > maxn s then trackID t else maxntrkid s)
      in s\<lparr>maxe := maxe1, tote := tote1, maxtrkid := maxtrkid1,
            maxn := maxn1, totn := totn1, maxntrkid := maxntrkid1,
            trkid_lookup := find_mcparticle mcpartList (trackID t) (trkid_lookup s),
            fTrkIDECollector := c2\<rparr>)"

fun trkide_loop :: "MCParticle list \<Rightarrow> TrackIDE list \<Rightarrow> Locals \<Rightarrow> Locals" where
  "trkide_loop mcpartList [] s = s"
| "trkide_loop mcpartList (t # trkide_list) s =
     trkide_loop mcpartList trkide_list (trkide_step mcpartList t s)"

subsection \<open>The loop over the collector (lines 173 to 184)\<close>

definition make_bthmd :: "Locals \<Rightarrow> int \<Rightarrow> TrackIDEinfo \<Rightarrow> BackTrackerHitMatchingData" where
  "make_bthmd s k v =
     \<lparr>ideFraction = fdiv (E v) (tote s),
      isMaxIDE = (k = maxtrkid s),
      ideNFraction = fdiv (NumElectrons v) (totn s),
      isMaxIDEN = (k = maxntrkid s),
      bthmd_energy = E v,
      bthmd_numElectrons = NumElectrons v\<rparr>"

fun assn_loop :: "nat \<Rightarrow> (int \<times> TrackIDEinfo) list \<Rightarrow> Locals \<Rightarrow> Locals" where
  "assn_loop i_h [] s = s"
| "assn_loop i_h ((k, v) # rest) s =
     (let (mcpart_i, m) = lookup_at (trkid_lookup s) k;
          s1 = s\<lparr>trkid_lookup := m\<rparr>
      in if mcpart_i = - 1 then assn_loop i_h rest s1
         else assn_loop i_h rest
                (s1\<lparr>MCPartHitassn := MCPartHitassn s1 @
                      [\<lparr>hitKey = i_h, mcpartKey = to_size_t mcpart_i,
                        bthmd = make_bthmd s1 k v\<rparr>]\<rparr>))"

subsection \<open>The loop over the hits (lines 137 to 186)\<close>

text \<open>Lines 141 to 143: the per-hit variables are reset, the lookup cache is kept.\<close>

definition reset_hit :: "Locals \<Rightarrow> Locals" where
  "reset_hit s = s\<lparr>maxe := - 1, tote := 0, maxtrkid := - 1,
                   maxn := - 1, totn := 0, maxntrkid := - 1,
                   fTrkIDECollector := []\<rparr>"

definition hit_body :: "MCParticle list \<Rightarrow> TrackIDE list \<Rightarrow> nat \<Rightarrow> Locals \<Rightarrow> Locals" where
  "hit_body mcpartList trkide_list i_h s =
     (let s1 = trkide_loop mcpartList trkide_list (reset_hit s)
      in assn_loop i_h (fTrkIDECollector s1) s1)"

function hit_loop ::
  "('h \<Rightarrow> TrackIDE list) \<Rightarrow> MCParticle list \<Rightarrow> 'h list \<Rightarrow> nat \<Rightarrow> Locals \<Rightarrow> Locals" where
  "hit_loop HitToTrackID mcpartList hitList i_h s =
     (if i_h < length hitList
      then hit_loop HitToTrackID mcpartList hitList (Suc i_h)
             (hit_body mcpartList (HitToTrackID (hitList ! i_h)) i_h s)
      else s)"
  by pat_completeness auto
termination
  by (relation "measure (\<lambda>(HitToTrackID, mcpartList, hitList, i_h, s). length hitList - i_h)")
    auto

declare hit_loop.simps [simp del]

subsection \<open>produce\<close>

text \<open>Lines 116 to 124: the locals as declared.\<close>

definition init_locals :: Locals where
  "init_locals = \<lparr>maxe = - 1, tote = 0, maxtrkid = - 1, maxn = - 1, totn = 0,
                  maxntrkid = - 1, trkid_lookup = Map.empty, fTrkIDECollector = [],
                  MCPartHitassn = []\<rparr>"

definition produce :: "('h \<Rightarrow> TrackIDE list) \<Rightarrow> 'h Event \<Rightarrow> exn + Outcome" where
  "produce HitToTrackID evt =
     (if isRealData evt then Inr \<lparr>put = None, cerr = []\<rparr>
      else case mcparticles evt of
        None \<Rightarrow> Inl ProductNotFound
      | Some mcpartList \<Rightarrow>
          (case hits evt of
             None \<Rightarrow> Inr \<lparr>put = None, cerr = [''Hit handle is not valid!'']\<rparr>
           | Some hitList \<Rightarrow>
               Inr \<lparr>put = Some (MCPartHitassn
                                 (hit_loop HitToTrackID mcpartList hitList 0 init_locals)),
                    cerr = []\<rparr>))"

subsection \<open>The module with the roundings of its stores written out\<close>

text \<open>
  \<^verbatim>\<open>TrackIDEinfo::E\<close> and \<^verbatim>\<open>NumElectrons\<close> are \<^verbatim>\<open>float\<close>, the totals \<^verbatim>\<open>tote\<close> and
  \<^verbatim>\<open>totn\<close> are \<^verbatim>\<open>double\<close>, and the fractions of the metadata are \<^verbatim>\<open>float\<close>: every
  store of a computed value rounds it. Which trackId holds the running maximum depends on
  the rounded sums, so the definitions of this subsection repeat the ones above with the
  roundings as parameters: \<open>fl\<close> rounds a real number to \<^verbatim>\<open>float\<close> and \<open>db\<close> to
  \<^verbatim>\<open>double\<close>. Line 148 stores \<open>fl (E + energy)\<close>, line 149 \<open>db (tote + energy)\<close>, and
  likewise lines 151 and 152; \<^verbatim>\<open>maxe = E\<close> widens a \<^verbatim>\<open>float\<close> and is exact; lines 177 and
  179 divide in \<^verbatim>\<open>double\<close> and store a \<^verbatim>\<open>float\<close>. Values beyond the range of the
  formats (overflow to an infinity) stay outside the model. With both roundings the
  identity these are the definitions above.
\<close>

definition add_E_fl ::
  "(real \<Rightarrow> real) \<Rightarrow> int \<Rightarrow> real \<Rightarrow> (int \<times> TrackIDEinfo) list \<Rightarrow> (int \<times> TrackIDEinfo) list" where
  "add_E_fl fl k x c =
     AList.update k ((collector_at c k)\<lparr>E := fl (E (collector_at c k) + x)\<rparr>) c"

definition add_NumElectrons_fl ::
  "(real \<Rightarrow> real) \<Rightarrow> int \<Rightarrow> real \<Rightarrow> (int \<times> TrackIDEinfo) list \<Rightarrow> (int \<times> TrackIDEinfo) list" where
  "add_NumElectrons_fl fl k x c =
     AList.update k
       ((collector_at c k)\<lparr>NumElectrons := fl (NumElectrons (collector_at c k) + x)\<rparr>) c"

definition trkide_step_fl ::
  "(real \<Rightarrow> real) \<Rightarrow> (real \<Rightarrow> real) \<Rightarrow> MCParticle list \<Rightarrow> TrackIDE \<Rightarrow> Locals \<Rightarrow> Locals" where
  "trkide_step_fl fl db mcpartList t s =
     (let c1 = add_E_fl fl (trackID t) (energy t) (fTrkIDECollector s);
          tote1 = db (tote s + energy t);
          e1 = E (collector_at c1 (trackID t));
          maxe1 = (if e1 > maxe s then e1 else maxe s);
          maxtrkid1 = (if e1 > maxe s then trackID t else maxtrkid s);
          c2 = add_NumElectrons_fl fl (trackID t) (numElectrons t) c1;
          totn1 = db (totn s + numElectrons t);
          n1 = NumElectrons (collector_at c2 (trackID t));
          maxn1 = (if n1 > maxn s then n1 else maxn s);
          maxntrkid1 = (if n1 > maxn s then trackID t else maxntrkid s)
      in s\<lparr>maxe := maxe1, tote := tote1, maxtrkid := maxtrkid1,
            maxn := maxn1, totn := totn1, maxntrkid := maxntrkid1,
            trkid_lookup := find_mcparticle mcpartList (trackID t) (trkid_lookup s),
            fTrkIDECollector := c2\<rparr>)"

fun trkide_loop_fl ::
  "(real \<Rightarrow> real) \<Rightarrow> (real \<Rightarrow> real) \<Rightarrow> MCParticle list \<Rightarrow> TrackIDE list \<Rightarrow> Locals \<Rightarrow> Locals" where
  "trkide_loop_fl fl db mcpartList [] s = s"
| "trkide_loop_fl fl db mcpartList (t # trkide_list) s =
     trkide_loop_fl fl db mcpartList trkide_list (trkide_step_fl fl db mcpartList t s)"

definition fdiv_fl :: "(real \<Rightarrow> real) \<Rightarrow> (real \<Rightarrow> real) \<Rightarrow> real \<Rightarrow> real \<Rightarrow> fval" where
  "fdiv_fl fl db a b = (if b \<noteq> 0 then Fin (fl (db (a / b)))
                        else if a = 0 then NaN
                        else if 0 < a then PosInf else NegInf)"

definition make_bthmd_fl ::
  "(real \<Rightarrow> real) \<Rightarrow> (real \<Rightarrow> real) \<Rightarrow> Locals \<Rightarrow> int \<Rightarrow> TrackIDEinfo \<Rightarrow>
   BackTrackerHitMatchingData" where
  "make_bthmd_fl fl db s k v =
     \<lparr>ideFraction = fdiv_fl fl db (E v) (tote s),
      isMaxIDE = (k = maxtrkid s),
      ideNFraction = fdiv_fl fl db (NumElectrons v) (totn s),
      isMaxIDEN = (k = maxntrkid s),
      bthmd_energy = E v,
      bthmd_numElectrons = NumElectrons v\<rparr>"

fun assn_loop_fl ::
  "(real \<Rightarrow> real) \<Rightarrow> (real \<Rightarrow> real) \<Rightarrow> nat \<Rightarrow> (int \<times> TrackIDEinfo) list \<Rightarrow> Locals \<Rightarrow> Locals" where
  "assn_loop_fl fl db i_h [] s = s"
| "assn_loop_fl fl db i_h ((k, v) # rest) s =
     (let (mcpart_i, m) = lookup_at (trkid_lookup s) k;
          s1 = s\<lparr>trkid_lookup := m\<rparr>
      in if mcpart_i = - 1 then assn_loop_fl fl db i_h rest s1
         else assn_loop_fl fl db i_h rest
                (s1\<lparr>MCPartHitassn := MCPartHitassn s1 @
                      [\<lparr>hitKey = i_h, mcpartKey = to_size_t mcpart_i,
                        bthmd = make_bthmd_fl fl db s1 k v\<rparr>]\<rparr>))"

definition hit_body_fl ::
  "(real \<Rightarrow> real) \<Rightarrow> (real \<Rightarrow> real) \<Rightarrow> MCParticle list \<Rightarrow> TrackIDE list \<Rightarrow> nat \<Rightarrow> Locals \<Rightarrow> Locals" where
  "hit_body_fl fl db mcpartList trkide_list i_h s =
     (let s1 = trkide_loop_fl fl db mcpartList trkide_list (reset_hit s)
      in assn_loop_fl fl db i_h (fTrkIDECollector s1) s1)"

function hit_loop_fl ::
  "(real \<Rightarrow> real) \<Rightarrow> (real \<Rightarrow> real) \<Rightarrow> ('h \<Rightarrow> TrackIDE list) \<Rightarrow> MCParticle list \<Rightarrow> 'h list \<Rightarrow>
   nat \<Rightarrow> Locals \<Rightarrow> Locals" where
  "hit_loop_fl fl db HitToTrackID mcpartList hitList i_h s =
     (if i_h < length hitList
      then hit_loop_fl fl db HitToTrackID mcpartList hitList (Suc i_h)
             (hit_body_fl fl db mcpartList (HitToTrackID (hitList ! i_h)) i_h s)
      else s)"
  by pat_completeness auto
termination
  by (relation "measure (\<lambda>(fl, db, HitToTrackID, mcpartList, hitList, i_h, s).
                           length hitList - i_h)")
    auto

declare hit_loop_fl.simps [simp del]

definition produce_fl ::
  "(real \<Rightarrow> real) \<Rightarrow> (real \<Rightarrow> real) \<Rightarrow> ('h \<Rightarrow> TrackIDE list) \<Rightarrow> 'h Event \<Rightarrow> exn + Outcome" where
  "produce_fl fl db HitToTrackID evt =
     (if isRealData evt then Inr \<lparr>put = None, cerr = []\<rparr>
      else case mcparticles evt of
        None \<Rightarrow> Inl ProductNotFound
      | Some mcpartList \<Rightarrow>
          (case hits evt of
             None \<Rightarrow> Inr \<lparr>put = None, cerr = [''Hit handle is not valid!'']\<rparr>
           | Some hitList \<Rightarrow>
               Inr \<lparr>put = Some (MCPartHitassn
                                 (hit_loop_fl fl db HitToTrackID mcpartList hitList 0
                                    init_locals)),
                    cerr = []\<rparr>))"

section \<open>Vocabulary of the properties\<close>

text \<open>
  The definitions below are not part of the module. They name what the properties are
  stated with: sums over the contribution records of a hit, the lowest position of a track
  id in the particle list, and the associations of one hit in the outcome of \<open>produce\<close>.
\<close>

text \<open>The sum of \<open>f\<close> (energy or number of electrons) over the records of track id \<open>k\<close>.\<close>

definition summed :: "(TrackIDE \<Rightarrow> real) \<Rightarrow> TrackIDE list \<Rightarrow> int \<Rightarrow> real" where
  "summed f trkide_list k = sum_list (map f (filter (\<lambda>t. trackID t = k) trkide_list))"

text \<open>
  \<open>first_reach f rs k\<close>: a record of track id \<open>k\<close> brings the running sum of \<open>k\<close> to
  its final value, and before that record no running sum of a track id of the hit has
  reached that value. For \<open>k\<close> of maximal final sum this says that \<open>k\<close> is the track id
  whose running sum reaches the maximum first in record order; among track ids of equal
  final sum at most one has the property (\<open>first_reach_unique\<close> below).
\<close>

definition first_reach :: "(TrackIDE \<Rightarrow> real) \<Rightarrow> TrackIDE list \<Rightarrow> int \<Rightarrow> bool" where
  "first_reach f rs k \<longleftrightarrow>
     (\<exists>i<length rs. trackID (rs ! i) = k \<and>
        summed f (take (Suc i) rs) k = summed f rs k \<and>
        (\<forall>j<i. \<forall>k'\<in>trackID ` set rs. summed f (take (Suc j) rs) k' < summed f rs k))"

text \<open>The lowest position of a particle with track id \<open>k\<close>; the length of the list if none.\<close>

definition lowest :: "MCParticle list \<Rightarrow> int \<Rightarrow> nat" where
  "lowest ps k = length (takeWhile (\<lambda>p. TrackId p \<noteq> k) ps)"

text \<open>The value that lines 159 to 166 store for track id \<open>k\<close>.\<close>

definition resolved :: "MCParticle list \<Rightarrow> int \<Rightarrow> int" where
  "resolved ps k = (if lowest ps k < length ps then to_int (lowest ps k) else - 1)"

text \<open>A lookup cache that holds nothing but values stored by lines 159 to 166.\<close>

definition cache_ok :: "MCParticle list \<Rightarrow> (int \<rightharpoonup> int) \<Rightarrow> bool" where
  "cache_ok ps m \<longleftrightarrow> (\<forall>k v. m k = Some v \<longrightarrow> v = resolved ps k)"

text \<open>The keys of the collector in the order in which the records insert them.\<close>

definition add_key :: "int list \<Rightarrow> int \<Rightarrow> int list" where
  "add_key ks k = (if k \<in> set ks then ks else ks @ [k])"

definition seen_keys :: "TrackIDE list \<Rightarrow> int list" where
  "seen_keys trkide_list = foldl add_key [] (map trackID trkide_list)"

text \<open>
  The running maximum of lines 148 to 156 for one quantity \<open>f\<close>, on the triple of the sums
  per track id, the maximum and the track id holding it; \<open>view_E\<close> and \<open>view_N\<close> read
  that triple off the locals, \<open>max_inv\<close> is the loop invariant, and \<open>dominant\<close> is the
  track id the loop ends with.
\<close>

definition max_step ::
  "(TrackIDE \<Rightarrow> real) \<Rightarrow> (int \<Rightarrow> real) \<times> real \<times> int \<Rightarrow> TrackIDE \<Rightarrow>
   (int \<Rightarrow> real) \<times> real \<times> int" where
  "max_step f v t =
     (case v of (acc, mx, mid) \<Rightarrow>
        (acc(trackID t := acc (trackID t) + f t),
         if acc (trackID t) + f t > mx then acc (trackID t) + f t else mx,
         if acc (trackID t) + f t > mx then trackID t else mid))"

definition view_E :: "Locals \<Rightarrow> (int \<Rightarrow> real) \<times> real \<times> int" where
  "view_E s = (\<lambda>k. E (collector_at (fTrkIDECollector s) k), maxe s, maxtrkid s)"

definition view_N :: "Locals \<Rightarrow> (int \<Rightarrow> real) \<times> real \<times> int" where
  "view_N s = (\<lambda>k. NumElectrons (collector_at (fTrkIDECollector s) k), maxn s, maxntrkid s)"

definition max_inv ::
  "(TrackIDE \<Rightarrow> real) \<Rightarrow> TrackIDE list \<Rightarrow> (int \<Rightarrow> real) \<times> real \<times> int \<Rightarrow> bool" where
  "max_inv f rs v =
     (case v of (acc, mx, mid) \<Rightarrow>
        (\<forall>k. acc k = summed f rs k) \<and>
        (rs = [] \<longrightarrow> mx = - 1 \<and> mid = - 1) \<and>
        (\<forall>j<length rs. \<forall>k. summed f (take (Suc j) rs) k \<le> mx) \<and>
        (rs \<noteq> [] \<longrightarrow>
           (\<exists>i<length rs. trackID (rs ! i) = mid \<and> summed f (take (Suc i) rs) mid = mx \<and>
              (\<forall>j<i. \<forall>k. summed f (take (Suc j) rs) k < mx))))"

definition dominant :: "(TrackIDE \<Rightarrow> real) \<Rightarrow> TrackIDE list \<Rightarrow> int" where
  "dominant f rs = snd (snd (foldl (max_step f) (\<lambda>k. 0, - 1, - 1) rs))"

text \<open>
  The association that the module adds for a matched track id \<open>k\<close> of a hit with records
  \<open>rs\<close>, and the associations of the whole hit, as the lemmas below show.
\<close>

definition matched_assn :: "MCParticle list \<Rightarrow> TrackIDE list \<Rightarrow> nat \<Rightarrow> int \<Rightarrow> Assn" where
  "matched_assn ps rs i_h k =
     \<lparr>hitKey = i_h, mcpartKey = lowest ps k,
      bthmd = \<lparr>ideFraction = fdiv (summed energy rs k) (sum_list (map energy rs)),
               isMaxIDE = (k = dominant energy rs),
               ideNFraction = fdiv (summed numElectrons rs k) (sum_list (map numElectrons rs)),
               isMaxIDEN = (k = dominant numElectrons rs),
               bthmd_energy = summed energy rs k,
               bthmd_numElectrons = summed numElectrons rs k\<rparr>\<rparr>"

definition hit_assns :: "MCParticle list \<Rightarrow> TrackIDE list \<Rightarrow> nat \<Rightarrow> Assn list" where
  "hit_assns ps rs i_h =
     map (matched_assn ps rs i_h) (filter (\<lambda>k. k \<in> TrackId ` set ps) (seen_keys rs))"

text \<open>
  The associations in the outcome of \<open>produce\<close>: all of them, and those of the hit at
  position \<open>i_h\<close>. There are none when \<open>produce\<close> throws or never calls \<^verbatim>\<open>put\<close>.
\<close>

definition assns_of :: "exn + Outcome \<Rightarrow> Assn list" where
  "assns_of r =
     (case r of Inl e \<Rightarrow> []
      | Inr out \<Rightarrow> (case put out of None \<Rightarrow> [] | Some as \<Rightarrow> as))"

definition assns_of_hit :: "exn + Outcome \<Rightarrow> nat \<Rightarrow> Assn list" where
  "assns_of_hit r i_h = filter (\<lambda>a. hitKey a = i_h) (assns_of r)"

text \<open>Concrete inputs: a particle, a contribution record, and a simulated event.\<close>

definition particle :: "int \<Rightarrow> MCParticle" where
  "particle k = \<lparr>TrackId = k\<rparr>"

definition ide :: "int \<Rightarrow> real \<Rightarrow> real \<Rightarrow> TrackIDE" where
  "ide k e n = \<lparr>trackID = k, energy = e, numElectrons = n\<rparr>"

definition simulated :: "MCParticle list \<Rightarrow> 'h list \<Rightarrow> 'h Event" where
  "simulated ps hs = \<lparr>isRealData = False, mcparticles = Some ps, hits = Some hs\<rparr>"

text \<open>
  The sum of \<open>f\<close> over the records of track id \<open>k\<close> as the module accumulates it: each
  addition is rounded by \<open>fl\<close>. \<open>first_reach_fl\<close> is \<open>first_reach\<close> for these sums, and
  \<open>rounding fl\<close> is what the properties need of a rounding: it is monotone, and zero and
  every rounded value are representable.
\<close>

definition accumulated ::
  "(real \<Rightarrow> real) \<Rightarrow> (TrackIDE \<Rightarrow> real) \<Rightarrow> TrackIDE list \<Rightarrow> int \<Rightarrow> real" where
  "accumulated fl f trkide_list k =
     foldl (\<lambda>a t. if trackID t = k then fl (a + f t) else a) 0 trkide_list"

definition first_reach_fl ::
  "(real \<Rightarrow> real) \<Rightarrow> (TrackIDE \<Rightarrow> real) \<Rightarrow> TrackIDE list \<Rightarrow> int \<Rightarrow> bool" where
  "first_reach_fl fl f rs k \<longleftrightarrow>
     (\<exists>i<length rs. trackID (rs ! i) = k \<and>
        accumulated fl f (take (Suc i) rs) k = accumulated fl f rs k \<and>
        (\<forall>j<i. \<forall>k'\<in>trackID ` set rs.
           accumulated fl f (take (Suc j) rs) k' < accumulated fl f rs k))"

definition rounding :: "(real \<Rightarrow> real) \<Rightarrow> bool" where
  "rounding fl \<longleftrightarrow> (\<forall>x y. x \<le> y \<longrightarrow> fl x \<le> fl y) \<and> fl 0 = 0 \<and> (\<forall>x. fl (fl x) = fl x)"

definition max_step_fl ::
  "(real \<Rightarrow> real) \<Rightarrow> (TrackIDE \<Rightarrow> real) \<Rightarrow> (int \<Rightarrow> real) \<times> real \<times> int \<Rightarrow> TrackIDE \<Rightarrow>
   (int \<Rightarrow> real) \<times> real \<times> int" where
  "max_step_fl fl f v t =
     (case v of (acc, mx, mid) \<Rightarrow>
        (acc(trackID t := fl (acc (trackID t) + f t)),
         if fl (acc (trackID t) + f t) > mx then fl (acc (trackID t) + f t) else mx,
         if fl (acc (trackID t) + f t) > mx then trackID t else mid))"

definition max_inv_fl ::
  "(real \<Rightarrow> real) \<Rightarrow> (TrackIDE \<Rightarrow> real) \<Rightarrow> TrackIDE list \<Rightarrow> (int \<Rightarrow> real) \<times> real \<times> int \<Rightarrow> bool" where
  "max_inv_fl fl f rs v =
     (case v of (acc, mx, mid) \<Rightarrow>
        (\<forall>k. acc k = accumulated fl f rs k) \<and>
        (rs = [] \<longrightarrow> mx = - 1 \<and> mid = - 1) \<and>
        (\<forall>j<length rs. \<forall>k. accumulated fl f (take (Suc j) rs) k \<le> mx) \<and>
        (rs \<noteq> [] \<longrightarrow>
           (\<exists>i<length rs. trackID (rs ! i) = mid \<and>
              accumulated fl f (take (Suc i) rs) mid = mx \<and>
              (\<forall>j<i. \<forall>k. accumulated fl f (take (Suc j) rs) k < mx))))"

definition dominant_fl :: "(real \<Rightarrow> real) \<Rightarrow> (TrackIDE \<Rightarrow> real) \<Rightarrow> TrackIDE list \<Rightarrow> int" where
  "dominant_fl fl f rs = snd (snd (foldl (max_step_fl fl f) (\<lambda>k. 0, - 1, - 1) rs))"

definition total_db :: "(real \<Rightarrow> real) \<Rightarrow> (TrackIDE \<Rightarrow> real) \<Rightarrow> TrackIDE list \<Rightarrow> real" where
  "total_db db f trkide_list = foldl (\<lambda>a t. db (a + f t)) 0 trkide_list"

definition matched_assn_fl ::
  "(real \<Rightarrow> real) \<Rightarrow> (real \<Rightarrow> real) \<Rightarrow> MCParticle list \<Rightarrow> TrackIDE list \<Rightarrow> nat \<Rightarrow> int \<Rightarrow> Assn" where
  "matched_assn_fl fl db ps rs i_h k =
     \<lparr>hitKey = i_h, mcpartKey = lowest ps k,
      bthmd = \<lparr>ideFraction = fdiv_fl fl db (accumulated fl energy rs k) (total_db db energy rs),
               isMaxIDE = (k = dominant_fl fl energy rs),
               ideNFraction =
                 fdiv_fl fl db (accumulated fl numElectrons rs k) (total_db db numElectrons rs),
               isMaxIDEN = (k = dominant_fl fl numElectrons rs),
               bthmd_energy = accumulated fl energy rs k,
               bthmd_numElectrons = accumulated fl numElectrons rs k\<rparr>\<rparr>"

definition hit_assns_fl ::
  "(real \<Rightarrow> real) \<Rightarrow> (real \<Rightarrow> real) \<Rightarrow> MCParticle list \<Rightarrow> TrackIDE list \<Rightarrow> nat \<Rightarrow> Assn list" where
  "hit_assns_fl fl db ps rs i_h =
     map (matched_assn_fl fl db ps rs i_h) (filter (\<lambda>k. k \<in> TrackId ` set ps) (seen_keys rs))"

text \<open>A rounding for concrete inputs: to the whole number below.\<close>

definition round_down :: "real \<Rightarrow> real" where
  "round_down x = of_int \<lfloor>x\<rfloor>"

section \<open>Lemmas\<close>

subsection \<open>Resolving a track id\<close>

lemma lowest_le: "lowest ps k \<le> length ps"
  by (simp add: lowest_def length_takeWhile_le)

lemma lowest_less_iff: "lowest ps k < length ps \<longleftrightarrow> k \<in> TrackId ` set ps"
proof -
  have "lowest ps k = length ps \<longleftrightarrow> (\<forall>p\<in>set ps. TrackId p \<noteq> k)"
  proof
    assume "lowest ps k = length ps"
    then have "take (length (takeWhile (\<lambda>p. TrackId p \<noteq> k) ps)) ps = ps"
      by (simp add: lowest_def)
    then have "takeWhile (\<lambda>p. TrackId p \<noteq> k) ps = ps"
      by (simp flip: takeWhile_eq_take)
    then show "\<forall>p\<in>set ps. TrackId p \<noteq> k" by (simp add: takeWhile_eq_all_conv)
  next
    assume "\<forall>p\<in>set ps. TrackId p \<noteq> k"
    then have "takeWhile (\<lambda>p. TrackId p \<noteq> k) ps = ps" by simp
    then show "lowest ps k = length ps" unfolding lowest_def by (rule arg_cong)
  qed
  with lowest_le [of ps k] show ?thesis by (auto simp: less_le)
qed

lemma lowest_hit: "lowest ps k < length ps \<Longrightarrow> TrackId (ps ! lowest ps k) = k"
  unfolding lowest_def using nth_length_takeWhile [of "\<lambda>p. TrackId p \<noteq> k" ps] by simp

lemma lowest_before:
  assumes "j < lowest ps k"
  shows "TrackId (ps ! j) \<noteq> k"
proof -
  let ?tw = "takeWhile (\<lambda>p. TrackId p \<noteq> k) ps"
  from assms have j: "j < length ?tw" by (simp add: lowest_def)
  then have "?tw ! j \<in> set ?tw" by (rule nth_mem)
  then have "TrackId (?tw ! j) \<noteq> k" by (auto dest: set_takeWhileD)
  with takeWhile_nth [OF j] show ?thesis by simp
qed

lemma lowest_unique:
  assumes "i < length ps" "TrackId (ps ! i) = k" "\<forall>j<i. TrackId (ps ! j) \<noteq> k"
  shows "lowest ps k = i"
proof (rule ccontr)
  assume ne: "lowest ps k \<noteq> i"
  show False
  proof (cases "lowest ps k < i")
    case True
    then have "lowest ps k < length ps" using assms(1) by simp
    from lowest_hit [OF this] assms(3) True show False by blast
  next
    case False
    with ne have "i < lowest ps k" by simp
    from lowest_before [OF this] assms(2) show False by simp
  qed
qed

lemma scan_mcpartList_lowest:
  "i_p \<le> lowest ps k \<Longrightarrow>
   scan_mcpartList ps k i_p m =
     (lowest ps k, if lowest ps k < length ps then m(k \<mapsto> to_int (lowest ps k)) else m)"
proof (induction ps k i_p m rule: scan_mcpartList.induct)
  case (1 ps k i_p m)
  show ?case
  proof (cases "i_p < length ps")
    case inb: True
    show ?thesis
    proof (cases "TrackId (ps ! i_p) = k")
      case True
      have "\<not> i_p < lowest ps k" using lowest_before [of i_p ps k] True by blast
      with "1.prems" have "lowest ps k = i_p" by simp
      with inb True show ?thesis by (subst scan_mcpartList.simps) simp
    next
      case False
      have "lowest ps k \<noteq> i_p" using lowest_hit [of ps k] inb False by auto
      with "1.prems" have "Suc i_p \<le> lowest ps k" by simp
      from "1.IH" [OF inb False this] inb False show ?thesis
        by (subst scan_mcpartList.simps) simp
    qed
  next
    case False
    with "1.prems" lowest_le [of ps k] have "lowest ps k = i_p" "lowest ps k = length ps" by simp_all
    with False show ?thesis by (subst scan_mcpartList.simps) simp
  qed
qed

lemma find_mcparticle_resolved:
  "find_mcparticle ps k m = (if m k = None then m(k \<mapsto> resolved ps k) else m)"
  using lowest_le [of ps k]
  by (auto simp: find_mcparticle_def scan_mcpartList_lowest resolved_def)

lemma to_int_small:
  assumes "i < 2 ^ 31"
  shows "to_int i = int i"
proof -
  have "int i < int (2 ^ 31)" using assms by (simp only: of_nat_less_iff)
  then have "int i < 2 ^ 31" by simp
  then have "signed_take_bit 31 (int i) = int i"
    by (intro signed_take_bit_int_eq_self) simp_all
  then show ?thesis by (simp add: to_int_def signed_of_nat)
qed

lemma to_size_t_small:
  assumes "i < 2 ^ 31"
  shows "to_size_t (int i) = i"
proof -
  have "(2::nat) ^ 31 \<le> 2 ^ 64" by simp
  with assms have "i < 2 ^ 64" by (rule less_le_trans)
  then show ?thesis by (simp add: to_size_t_def unat_of_nat)
qed


subsection \<open>The loop over the records, field by field\<close>

lemma summed_Nil [simp]: "summed f [] k = 0"
  by (simp add: summed_def)

lemma summed_Cons:
  "summed f (t # ts) k = (if trackID t = k then f t + summed f ts k else summed f ts k)"
  by (simp add: summed_def)

lemma summed_snoc:
  "summed f (ts @ [t]) k = (if trackID t = k then summed f ts k + f t else summed f ts k)"
  by (simp add: summed_def)

lemma collector_at_update:
  "collector_at (AList.update k v c) k' = (if k' = k then v else collector_at c k')"
  by (simp add: collector_at_def update_conv')

lemma collector_at_add_E:
  "collector_at (add_E k x c) k' =
     (if k' = k then (collector_at c k)\<lparr>E := E (collector_at c k) + x\<rparr> else collector_at c k')"
  by (simp add: add_E_def collector_at_update)

lemma collector_at_add_NumElectrons:
  "collector_at (add_NumElectrons k x c) k' =
     (if k' = k then (collector_at c k)\<lparr>NumElectrons := NumElectrons (collector_at c k) + x\<rparr>
      else collector_at c k')"
  by (simp add: add_NumElectrons_def collector_at_update)

lemma keys_add_E: "map fst (add_E k x c) = add_key (map fst c) k"
  by (simp add: add_E_def add_key_def update_keys)

lemma keys_add_NumElectrons: "map fst (add_NumElectrons k x c) = add_key (map fst c) k"
  by (simp add: add_NumElectrons_def add_key_def update_keys)

lemma add_key_idem: "add_key (add_key ks k) k = add_key ks k"
  by (simp add: add_key_def)

lemma set_add_key: "set (add_key ks k) = insert k (set ks)"
  by (auto simp: add_key_def)

lemma distinct_add_key: "distinct ks \<Longrightarrow> distinct (add_key ks k)"
  by (simp add: add_key_def)

lemma set_foldl_add_key: "set (foldl add_key ks xs) = set ks \<union> set xs"
  by (induction xs arbitrary: ks) (auto simp: set_add_key)

lemma distinct_foldl_add_key: "distinct ks \<Longrightarrow> distinct (foldl add_key ks xs)"
  by (induction xs arbitrary: ks) (auto simp: distinct_add_key)

lemma set_seen_keys: "set (seen_keys rs) = trackID ` set rs"
  by (simp add: seen_keys_def set_foldl_add_key)

lemma distinct_seen_keys: "distinct (seen_keys rs)"
  by (simp add: seen_keys_def distinct_foldl_add_key)

text \<open>One step, field by field.\<close>

lemma step_tote: "tote (trkide_step ps t s) = tote s + energy t"
  by (simp add: trkide_step_def Let_def)

lemma step_totn: "totn (trkide_step ps t s) = totn s + numElectrons t"
  by (simp add: trkide_step_def Let_def)

lemma step_out: "MCPartHitassn (trkide_step ps t s) = MCPartHitassn s"
  by (simp add: trkide_step_def Let_def)

lemma step_lookup:
  "trkid_lookup (trkide_step ps t s) = find_mcparticle ps (trackID t) (trkid_lookup s)"
  by (simp add: trkide_step_def Let_def)

lemma step_keys:
  "map fst (fTrkIDECollector (trkide_step ps t s)) = add_key (map fst (fTrkIDECollector s)) (trackID t)"
  by (simp add: trkide_step_def Let_def keys_add_E keys_add_NumElectrons add_key_idem)

lemma step_E:
  "E (collector_at (fTrkIDECollector (trkide_step ps t s)) k) =
     (if k = trackID t then E (collector_at (fTrkIDECollector s) k) + energy t
      else E (collector_at (fTrkIDECollector s) k))"
  by (simp add: trkide_step_def Let_def collector_at_add_E collector_at_add_NumElectrons)

lemma step_NumElectrons:
  "NumElectrons (collector_at (fTrkIDECollector (trkide_step ps t s)) k) =
     (if k = trackID t then NumElectrons (collector_at (fTrkIDECollector s) k) + numElectrons t
      else NumElectrons (collector_at (fTrkIDECollector s) k))"
  by (simp add: trkide_step_def Let_def collector_at_add_E collector_at_add_NumElectrons)

lemma step_maxe:
  "maxe (trkide_step ps t s) =
     (if E (collector_at (fTrkIDECollector s) (trackID t)) + energy t > maxe s
      then E (collector_at (fTrkIDECollector s) (trackID t)) + energy t else maxe s)"
  by (simp add: trkide_step_def Let_def collector_at_add_E)

lemma step_maxtrkid:
  "maxtrkid (trkide_step ps t s) =
     (if E (collector_at (fTrkIDECollector s) (trackID t)) + energy t > maxe s
      then trackID t else maxtrkid s)"
  by (simp add: trkide_step_def Let_def collector_at_add_E)

lemma step_maxn:
  "maxn (trkide_step ps t s) =
     (if NumElectrons (collector_at (fTrkIDECollector s) (trackID t)) + numElectrons t > maxn s
      then NumElectrons (collector_at (fTrkIDECollector s) (trackID t)) + numElectrons t
      else maxn s)"
  by (simp add: trkide_step_def Let_def collector_at_add_E collector_at_add_NumElectrons)

lemma step_maxntrkid:
  "maxntrkid (trkide_step ps t s) =
     (if NumElectrons (collector_at (fTrkIDECollector s) (trackID t)) + numElectrons t > maxn s
      then trackID t else maxntrkid s)"
  by (simp add: trkide_step_def Let_def collector_at_add_E collector_at_add_NumElectrons)

text \<open>The loop, field by field.\<close>

lemma loop_snoc: "trkide_loop ps (rs @ [t]) s = trkide_step ps t (trkide_loop ps rs s)"
  by (induction rs arbitrary: s) simp_all

lemma loop_tote: "tote (trkide_loop ps rs s) = tote s + sum_list (map energy rs)"
  by (induction rs arbitrary: s) (simp_all add: step_tote)

lemma loop_totn: "totn (trkide_loop ps rs s) = totn s + sum_list (map numElectrons rs)"
  by (induction rs arbitrary: s) (simp_all add: step_totn)

lemma loop_out: "MCPartHitassn (trkide_loop ps rs s) = MCPartHitassn s"
  by (induction rs arbitrary: s) (simp_all add: step_out)

lemma loop_keys:
  "map fst (fTrkIDECollector (trkide_loop ps rs s)) =
     foldl add_key (map fst (fTrkIDECollector s)) (map trackID rs)"
  by (induction rs arbitrary: s) (simp_all add: step_keys)

lemma loop_E:
  "E (collector_at (fTrkIDECollector (trkide_loop ps rs s)) k) =
     E (collector_at (fTrkIDECollector s) k) + summed energy rs k"
  by (induction rs arbitrary: s) (simp_all add: step_E summed_Cons)

lemma loop_NumElectrons:
  "NumElectrons (collector_at (fTrkIDECollector (trkide_loop ps rs s)) k) =
     NumElectrons (collector_at (fTrkIDECollector s) k) + summed numElectrons rs k"
  by (induction rs arbitrary: s) (simp_all add: step_NumElectrons summed_Cons)

lemma loop_lookup:
  "trkid_lookup (trkide_loop ps rs s) k =
     (case trkid_lookup s k of
        Some v \<Rightarrow> Some v
      | None \<Rightarrow> if k \<in> trackID ` set rs then Some (resolved ps k) else None)"
  by (induction rs arbitrary: s)
     (auto simp: step_lookup find_mcparticle_resolved split: option.splits)


subsection \<open>The running maximum\<close>

lemma view_E_step: "view_E (trkide_step ps t s) = max_step energy (view_E s) t"
  by (simp add: view_E_def max_step_def step_E step_maxe step_maxtrkid fun_eq_iff)

lemma view_N_step: "view_N (trkide_step ps t s) = max_step numElectrons (view_N s) t"
  by (simp add: view_N_def max_step_def step_NumElectrons step_maxn step_maxntrkid fun_eq_iff)

lemma view_E_loop: "view_E (trkide_loop ps rs s) = foldl (max_step energy) (view_E s) rs"
  by (induction rs arbitrary: s) (simp_all add: view_E_step)

lemma view_N_loop: "view_N (trkide_loop ps rs s) = foldl (max_step numElectrons) (view_N s) rs"
  by (induction rs arbitrary: s) (simp_all add: view_N_step)

lemma view_E_reset: "view_E (reset_hit s) = (\<lambda>k. 0, - 1, - 1)"
  by (simp add: view_E_def reset_hit_def collector_at_def)

lemma view_N_reset: "view_N (reset_hit s) = (\<lambda>k. 0, - 1, - 1)"
  by (simp add: view_N_def reset_hit_def collector_at_def)

lemma max_inv_Nil: "max_inv f [] (\<lambda>k. 0, - 1, - 1)"
  by (simp add: max_inv_def)

lemma max_inv_step:
  assumes inv: "max_inv f rs v" and nonneg: "0 \<le> f t"
  shows "max_inv f (rs @ [t]) (max_step f v t)"
proof -
  obtain acc mx mid where v: "v = (acc, mx, mid)" by (cases v)
  let ?a = "acc (trackID t) + f t"
  define mx' where "mx' = (if ?a > mx then ?a else mx)"
  define mid' where "mid' = (if ?a > mx then trackID t else mid)"
  have ms: "max_step f v t = (acc(trackID t := ?a), mx', mid')"
    by (simp add: v max_step_def mx'_def mid'_def)
  have mx_le: "mx \<le> mx'" and a_le: "?a \<le> mx'" by (simp_all add: mx'_def)
  from inv v have acc: "\<And>k. acc k = summed f rs k"
    and emp: "rs = [] \<Longrightarrow> mx = - 1"
    and bound: "\<And>j k. j < length rs \<Longrightarrow> summed f (take (Suc j) rs) k \<le> mx"
    and ex: "rs \<noteq> [] \<Longrightarrow> \<exists>i<length rs. trackID (rs ! i) = mid \<and>
               summed f (take (Suc i) rs) mid = mx \<and>
               (\<forall>j<i. \<forall>k. summed f (take (Suc j) rs) k < mx)"
    by (simp_all add: max_inv_def)
  have full: "\<And>k. summed f (rs @ [t]) k = (if k = trackID t then ?a else acc k)"
    by (auto simp: summed_snoc acc)
  have c1: "\<forall>k. (acc(trackID t := ?a)) k = summed f (rs @ [t]) k"
    by (simp add: full)
  have acc_le: "acc k \<le> mx'" for k
  proof (cases "rs = []")
    case True
    with acc [of k] acc [of "trackID t"] nonneg a_le show ?thesis by simp
  next
    case False
    then have "length rs - 1 < length rs" by simp
    from bound [OF this, of k] False mx_le show ?thesis by (simp add: acc)
  qed
  have c3: "\<forall>j<length (rs @ [t]). \<forall>k. summed f (take (Suc j) (rs @ [t])) k \<le> mx'"
  proof (intro allI impI)
    fix j k assume j: "j < length (rs @ [t])"
    show "summed f (take (Suc j) (rs @ [t])) k \<le> mx'"
    proof (cases "j < length rs")
      case True
      then show ?thesis using bound [of j k] mx_le by simp
    next
      case False
      with j have "take (Suc j) (rs @ [t]) = rs @ [t]" by simp
      then show ?thesis using acc_le [of k] a_le by (simp add: full)
    qed
  qed
  have c4: "\<exists>i<length (rs @ [t]). trackID ((rs @ [t]) ! i) = mid' \<and>
              summed f (take (Suc i) (rs @ [t])) mid' = mx' \<and>
              (\<forall>j<i. \<forall>k. summed f (take (Suc j) (rs @ [t])) k < mx')"
  proof (cases "?a > mx")
    case True
    then have eq: "mx' = ?a" "mid' = trackID t" by (simp_all add: mx'_def mid'_def)
    have "\<forall>j<length rs. \<forall>k. summed f (take (Suc j) (rs @ [t])) k < ?a"
    proof (intro allI impI)
      fix j k assume "j < length rs"
      then have "summed f (take (Suc j) rs) k \<le> mx" by (rule bound)
      with True \<open>j < length rs\<close> show "summed f (take (Suc j) (rs @ [t])) k < ?a" by simp
    qed
    then show ?thesis
      unfolding eq by (intro exI [of _ "length rs"]) (simp add: full)
  next
    case False
    then have eq: "mx' = mx" "mid' = mid" by (simp_all add: mx'_def mid'_def)
    have "rs \<noteq> []"
    proof
      assume "rs = []"
      with emp acc [of "trackID t"] have "mx = - 1" "acc (trackID t) = 0" by simp_all
      with False nonneg show False by simp
    qed
    from ex [OF this] obtain i where i: "i < length rs" "trackID (rs ! i) = mid"
      "summed f (take (Suc i) rs) mid = mx" "\<forall>j<i. \<forall>k. summed f (take (Suc j) rs) k < mx"
      by blast
    from i show ?thesis
      unfolding eq by (intro exI [of _ i]) (simp add: nth_append)
  qed
  from c1 c3 c4 show ?thesis
    unfolding ms max_inv_def by simp
qed

lemma max_inv_foldl:
  "\<forall>t\<in>set rs. 0 \<le> f t \<Longrightarrow> max_inv f rs (foldl (max_step f) (\<lambda>k. 0, - 1, - 1) rs)"
proof (induction rs rule: rev_induct)
  case Nil
  show ?case by (simp add: max_inv_Nil)
next
  case (snoc t rs)
  then show ?case by (simp add: max_inv_step)
qed

lemma summed_take_le:
  assumes "\<forall>t\<in>set rs. 0 \<le> f t"
  shows "summed f (take n rs) k \<le> summed f rs k"
proof -
  have "summed f rs k = summed f (take n rs) k + summed f (drop n rs) k"
    unfolding summed_def by (metis append_take_drop_id filter_append map_append sum_list_append)
  moreover have "0 \<le> summed f (drop n rs) k"
    unfolding summed_def using assms by (intro sum_list_nonneg) (auto dest: in_set_dropD)
  ultimately show ?thesis by simp
qed

lemma reset_at: "collector_at (fTrkIDECollector (reset_hit s)) k = \<lparr>E = 0, NumElectrons = 0\<rparr>"
  by (simp add: reset_hit_def collector_at_def)

text \<open>What the loop leaves in \<open>maxtrkid\<close> and \<open>maxntrkid\<close>.\<close>

lemma max_inv_E:
  "\<forall>t\<in>set rs. 0 \<le> energy t \<Longrightarrow>
   max_inv energy rs (\<lambda>k. summed energy rs k, maxe (trkide_loop ps rs (reset_hit s)),
                      maxtrkid (trkide_loop ps rs (reset_hit s)))"
proof -
  assume a: "\<forall>t\<in>set rs. 0 \<le> energy t"
  have "view_E (trkide_loop ps rs (reset_hit s)) =
        (\<lambda>k. summed energy rs k, maxe (trkide_loop ps rs (reset_hit s)),
         maxtrkid (trkide_loop ps rs (reset_hit s)))"
    by (simp add: view_E_def loop_E reset_at)
  with max_inv_foldl [OF a] show ?thesis
    by (simp add: view_E_loop view_E_reset)
qed

lemma max_inv_N:
  "\<forall>t\<in>set rs. 0 \<le> numElectrons t \<Longrightarrow>
   max_inv numElectrons rs (\<lambda>k. summed numElectrons rs k, maxn (trkide_loop ps rs (reset_hit s)),
                      maxntrkid (trkide_loop ps rs (reset_hit s)))"
proof -
  assume a: "\<forall>t\<in>set rs. 0 \<le> numElectrons t"
  have "view_N (trkide_loop ps rs (reset_hit s)) =
        (\<lambda>k. summed numElectrons rs k, maxn (trkide_loop ps rs (reset_hit s)),
         maxntrkid (trkide_loop ps rs (reset_hit s)))"
    by (simp add: view_N_def loop_NumElectrons reset_at)
  with max_inv_foldl [OF a] show ?thesis
    by (simp add: view_N_loop view_N_reset)
qed

lemma max_inv_dominant:
  assumes inv: "max_inv f rs (acc, mx, mid)" and nonneg: "\<forall>t\<in>set rs. 0 \<le> f t"
    and ne: "rs \<noteq> []"
  shows "mid \<in> trackID ` set rs" and "\<forall>k. summed f rs k \<le> summed f rs mid"
    and "first_reach f rs mid"
proof -
  from inv ne have "\<exists>i<length rs. trackID (rs ! i) = mid \<and> summed f (take (Suc i) rs) mid = mx \<and>
      (\<forall>j<i. \<forall>k. summed f (take (Suc j) rs) k < mx)"
    by (simp add: max_inv_def)
  then obtain i where i1: "i < length rs" and i2: "trackID (rs ! i) = mid"
    and i3: "summed f (take (Suc i) rs) mid = mx"
    and i4: "\<forall>j<i. \<forall>k. summed f (take (Suc j) rs) k < mx"
    by blast
  from inv have b: "\<And>j k. j < length rs \<Longrightarrow> summed f (take (Suc j) rs) k \<le> mx"
    by (simp add: max_inv_def)
  have bound: "summed f rs k \<le> mx" for k
    using b [of "length rs - 1" k] ne by simp
  have "mx \<le> summed f rs mid"
    using summed_take_le [OF nonneg, of "Suc i" mid] i3 by simp
  with bound [of mid] have mx: "mx = summed f rs mid" by simp
  from i1 have "rs ! i \<in> set rs" by simp
  then have "trackID (rs ! i) \<in> trackID ` set rs" by (rule imageI)
  with i2 show "mid \<in> trackID ` set rs" by simp
  from bound show "\<forall>k. summed f rs k \<le> summed f rs mid" unfolding mx by simp
  from i1 i2 i3 i4 show "first_reach f rs mid"
    unfolding first_reach_def mx by (intro exI [of _ i]) simp
qed


subsection \<open>The associations of a hit and of the event\<close>

lemma loop_maxtrkid: "maxtrkid (trkide_loop ps rs (reset_hit s)) = dominant energy rs"
proof -
  have "maxtrkid (trkide_loop ps rs (reset_hit s)) = snd (snd (view_E (trkide_loop ps rs (reset_hit s))))"
    by (simp add: view_E_def)
  then show ?thesis by (simp add: view_E_loop view_E_reset dominant_def)
qed

lemma loop_maxntrkid: "maxntrkid (trkide_loop ps rs (reset_hit s)) = dominant numElectrons rs"
proof -
  have "maxntrkid (trkide_loop ps rs (reset_hit s)) = snd (snd (view_N (trkide_loop ps rs (reset_hit s))))"
    by (simp add: view_N_def)
  then show ?thesis by (simp add: view_N_loop view_N_reset dominant_def)
qed

lemma resolved_matched:
  assumes "length ps \<le> 2 ^ 31" "k \<in> TrackId ` set ps"
  shows "resolved ps k = int (lowest ps k)" "to_size_t (resolved ps k) = lowest ps k"
    "resolved ps k \<noteq> - 1"
proof -
  from assms(2) have lt: "lowest ps k < length ps" by (simp add: lowest_less_iff)
  with assms(1) have small: "lowest ps k < 2 ^ 31" by simp
  from lt show r: "resolved ps k = int (lowest ps k)"
    by (simp add: resolved_def to_int_small [OF small])
  show "to_size_t (resolved ps k) = lowest ps k"
    unfolding r by (rule to_size_t_small [OF small])
  show "resolved ps k \<noteq> - 1" unfolding r by simp
qed

lemma resolved_unmatched: "k \<notin> TrackId ` set ps \<Longrightarrow> resolved ps k = - 1"
  by (simp add: resolved_def lowest_less_iff)

lemma resolved_iff:
  "length ps \<le> 2 ^ 31 \<Longrightarrow> resolved ps k \<noteq> - 1 \<longleftrightarrow> k \<in> TrackId ` set ps"
  using resolved_matched(3) [of ps k] resolved_unmatched [of k ps] by blast

lemma make_bthmd_out [simp]: "make_bthmd (s\<lparr>MCPartHitassn := x\<rparr>) k v = make_bthmd s k v"
  by (simp add: make_bthmd_def)

lemma assn_loop_cached:
  "\<forall>(k, v)\<in>set c. trkid_lookup s k = Some (resolved ps k) \<Longrightarrow>
   assn_loop i_h c s =
     s\<lparr>MCPartHitassn := MCPartHitassn s @
          map (\<lambda>(k, v). \<lparr>hitKey = i_h, mcpartKey = to_size_t (resolved ps k),
                         bthmd = make_bthmd s k v\<rparr>)
              (filter (\<lambda>(k, v). resolved ps k \<noteq> - 1) c)\<rparr>"
proof (induction c arbitrary: s)
  case Nil
  show ?case by simp
next
  case (Cons kv c)
  obtain k v where kv: "kv = (k, v)" by (cases kv)
  from Cons.prems kv have here: "trkid_lookup s k = Some (resolved ps k)"
    and rest: "\<forall>(k, v)\<in>set c. trkid_lookup s k = Some (resolved ps k)" by simp_all
  have same: "s\<lparr>trkid_lookup := trkid_lookup s\<rparr> = s" by simp
  show ?case
  proof (cases "resolved ps k = - 1")
    case True
    with here rest Cons.IH [of s] show ?thesis
      by (simp add: kv lookup_at_def same)
  next
    case False
    let ?s = "s\<lparr>MCPartHitassn := MCPartHitassn s @
                [\<lparr>hitKey = i_h, mcpartKey = to_size_t (resolved ps k), bthmd = make_bthmd s k v\<rparr>]\<rparr>"
    from rest have "\<forall>(k, v)\<in>set c. trkid_lookup ?s k = Some (resolved ps k)" by simp
    from Cons.IH [OF this] False here show ?thesis
      by (simp add: kv lookup_at_def same)
  qed
qed

lemma collector_values:
  assumes "distinct (map fst c)" "(k, v) \<in> set c"
  shows "collector_at c k = v"
  using assms by (simp add: collector_at_def)

lemma hit_body_assns:
  assumes len: "length ps \<le> 2 ^ 31" and ok: "cache_ok ps (trkid_lookup s)"
  shows "MCPartHitassn (hit_body ps rs i_h s) = MCPartHitassn s @ hit_assns ps rs i_h"
    and "cache_ok ps (trkid_lookup (hit_body ps rs i_h s))"
proof -
  let ?s1 = "trkide_loop ps rs (reset_hit s)"
  let ?c = "fTrkIDECollector ?s1"
  have keys: "map fst ?c = seen_keys rs"
    by (simp add: loop_keys seen_keys_def reset_hit_def)
  have dist: "distinct (map fst ?c)" unfolding keys by (rule distinct_seen_keys)
  have look0: "trkid_lookup (reset_hit s) = trkid_lookup s" by (simp add: reset_hit_def)
  have look: "trkid_lookup ?s1 k = Some (resolved ps k)" if "k \<in> trackID ` set rs" for k
    using that ok by (auto simp: loop_lookup look0 cache_ok_def split: option.splits)
  have ok1: "cache_ok ps (trkid_lookup ?s1)"
    using ok by (auto simp: cache_ok_def loop_lookup look0 split: option.splits if_splits)
  have inkeys: "k \<in> trackID ` set rs" if "(k, v) \<in> set ?c" for k v
  proof -
    from that have "k \<in> set (map fst ?c)" by force
    then show ?thesis unfolding keys by (simp add: set_seen_keys)
  qed
  have cached: "\<forall>(k, v)\<in>set ?c. trkid_lookup ?s1 k = Some (resolved ps k)"
    using look inkeys by blast
  have out1: "MCPartHitassn ?s1 = MCPartHitassn s" by (simp add: loop_out reset_hit_def)
  have val: "v = \<lparr>E = summed energy rs k, NumElectrons = summed numElectrons rs k\<rparr>"
    if "(k, v) \<in> set ?c" for k v
  proof -
    from collector_values [OF dist that] have "v = collector_at ?c k" by simp
    moreover have "E (collector_at ?c k) = summed energy rs k"
      by (simp add: loop_E reset_at)
    moreover have "NumElectrons (collector_at ?c k) = summed numElectrons rs k"
      by (simp add: loop_NumElectrons reset_at)
    ultimately show ?thesis by (cases v) simp
  qed
  have tot: "tote ?s1 = sum_list (map energy rs)" "totn ?s1 = sum_list (map numElectrons rs)"
    by (simp_all add: loop_tote loop_totn reset_hit_def)
  have entry: "\<lparr>hitKey = i_h, mcpartKey = to_size_t (resolved ps k), bthmd = make_bthmd ?s1 k v\<rparr>
               = matched_assn ps rs i_h k"
    if "(k, v) \<in> set ?c" "resolved ps k \<noteq> - 1" for k v
  proof -
    from that(2) len have "k \<in> TrackId ` set ps" by (simp add: resolved_iff)
    from resolved_matched(2) [OF len this] val [OF that(1)] show ?thesis
      by (simp add: matched_assn_def make_bthmd_def tot loop_maxtrkid loop_maxntrkid)
  qed
  have f_eq: "filter (\<lambda>(k, v). resolved ps k \<noteq> - 1) ?c
              = filter ((\<lambda>k. k \<in> TrackId ` set ps) \<circ> fst) ?c"
    by (rule filter_cong) (auto simp: resolved_iff [OF len])
  have m_eq: "map (\<lambda>(k, v). \<lparr>hitKey = i_h, mcpartKey = to_size_t (resolved ps k),
                         bthmd = make_bthmd ?s1 k v\<rparr>)
            (filter (\<lambda>(k, v). resolved ps k \<noteq> - 1) ?c)
        = map (matched_assn ps rs i_h \<circ> fst) (filter (\<lambda>(k, v). resolved ps k \<noteq> - 1) ?c)"
    by (rule map_cong) (auto simp: entry)
  have h_eq: "map (matched_assn ps rs i_h \<circ> fst) (filter ((\<lambda>k. k \<in> TrackId ` set ps) \<circ> fst) ?c)
             = hit_assns ps rs i_h"
    unfolding hit_assns_def by (simp add: filter_map flip: keys)
  have emitted:
    "map (\<lambda>(k, v). \<lparr>hitKey = i_h, mcpartKey = to_size_t (resolved ps k),
                         bthmd = make_bthmd ?s1 k v\<rparr>)
            (filter (\<lambda>(k, v). resolved ps k \<noteq> - 1) ?c) = hit_assns ps rs i_h"
    unfolding m_eq unfolding f_eq h_eq ..
  have body: "hit_body ps rs i_h s = ?s1\<lparr>MCPartHitassn := MCPartHitassn s @ hit_assns ps rs i_h\<rparr>"
    unfolding hit_body_def Let_def assn_loop_cached [OF cached] emitted out1 ..
  show "MCPartHitassn (hit_body ps rs i_h s) = MCPartHitassn s @ hit_assns ps rs i_h"
    unfolding body by simp
  show "cache_ok ps (trkid_lookup (hit_body ps rs i_h s))"
    unfolding body using ok1 by simp
qed

lemma hit_loop_assns:
  "length ps \<le> 2 ^ 31 \<Longrightarrow> cache_ok ps (trkid_lookup s) \<Longrightarrow>
   MCPartHitassn (hit_loop bt ps hs i_h s) =
     MCPartHitassn s @ concat (map (\<lambda>j. hit_assns ps (bt (hs ! j)) j) [i_h..<length hs])"
proof (induction bt ps hs i_h s rule: hit_loop.induct)
  case (1 bt ps hs i_h s)
  show ?case
  proof (cases "i_h < length hs")
    case True
    let ?s = "hit_body ps (bt (hs ! i_h)) i_h s"
    from hit_body_assns [OF "1.prems"] have
      out: "MCPartHitassn ?s = MCPartHitassn s @ hit_assns ps (bt (hs ! i_h)) i_h"
      and ok: "cache_ok ps (trkid_lookup ?s)" by simp_all
    from "1.IH" [OF True "1.prems"(1) ok] out True show ?thesis
      by (subst hit_loop.simps) (simp add: upt_conv_Cons)
  next
    case False
    then show ?thesis by (subst hit_loop.simps) simp
  qed
qed

lemma hitKey_hit_assns: "a \<in> set (hit_assns ps rs j) \<Longrightarrow> hitKey a = j"
  by (auto simp: hit_assns_def matched_assn_def)

lemma filter_hit_assns:
  "filter (\<lambda>a. hitKey a = i) (hit_assns ps rs j) = (if j = i then hit_assns ps rs j else [])"
  by (auto simp: filter_empty_conv hitKey_hit_assns filter_id_conv)

lemma filter_concat_hits:
  "i < n \<Longrightarrow>
   filter (\<lambda>a. hitKey a = i) (concat (map (\<lambda>j. hit_assns ps (g j) j) [0..<n])) = hit_assns ps (g i) i"
proof (induction n)
  case 0
  then show ?case by simp
next
  case (Suc n)
  show ?case
  proof (cases "i < n")
    case True
    with Suc.IH show ?thesis by (simp add: filter_hit_assns)
  next
    case False
    with Suc.prems have i: "i = n" by simp
    have "filter (\<lambda>a. hitKey a = n) (concat (map (\<lambda>j. hit_assns ps (g j) j) [0..<n])) = []"
      by (auto simp: filter_empty_conv dest: hitKey_hit_assns)
    then show ?thesis by (simp add: i filter_hit_assns)
  qed
qed

lemma produce_simulated:
  assumes "\<not> isRealData evt" "mcparticles evt = Some ps" "hits evt = Some hs"
    "length ps \<le> 2 ^ 31"
  shows "produce bt evt =
     Inr \<lparr>put = Some (concat (map (\<lambda>j. hit_assns ps (bt (hs ! j)) j) [0..<length hs])),
          cerr = []\<rparr>"
proof -
  have "cache_ok ps (trkid_lookup init_locals)" by (simp add: cache_ok_def init_locals_def)
  from hit_loop_assns [OF assms(4) this, of bt hs 0] assms(1-3) show ?thesis
    by (simp add: produce_def init_locals_def)
qed

lemma assns_of_hit_produce:
  assumes "\<not> isRealData evt" "mcparticles evt = Some ps" "hits evt = Some hs"
    "length ps \<le> 2 ^ 31" "i_h < length hs"
  shows "assns_of_hit (produce bt evt) i_h = hit_assns ps (bt (hs ! i_h)) i_h"
  unfolding produce_simulated [OF assms(1-4)] assns_of_hit_def assns_of_def
  using filter_concat_hits [OF assms(5), of ps "\<lambda>j. bt (hs ! j)"] by simp

subsection \<open>What the associations of a hit are\<close>

lemma dominant_props:
  assumes "\<forall>t\<in>set rs. 0 \<le> f t" "rs \<noteq> []"
  shows "dominant f rs \<in> trackID ` set rs"
    and "\<forall>k. summed f rs k \<le> summed f rs (dominant f rs)"
    and "first_reach f rs (dominant f rs)"
proof -
  obtain acc mx mid where v: "foldl (max_step f) (\<lambda>k. 0, - 1, - 1) rs = (acc, mx, mid)"
    by (cases "foldl (max_step f) (\<lambda>k. 0, - 1, - 1) rs")
  then have d: "dominant f rs = mid" by (simp add: dominant_def)
  from max_inv_foldl [OF assms(1)] v have inv: "max_inv f rs (acc, mx, mid)" by simp
  from max_inv_dominant [OF inv assms] show "dominant f rs \<in> trackID ` set rs"
    and "\<forall>k. summed f rs k \<le> summed f rs (dominant f rs)"
    and "first_reach f rs (dominant f rs)"
    unfolding d by simp_all
qed

lemma in_hit_assns:
  "a \<in> set (hit_assns ps rs i_h) \<longleftrightarrow>
     (\<exists>k. k \<in> trackID ` set rs \<and> k \<in> TrackId ` set ps \<and> a = matched_assn ps rs i_h k)"
  unfolding hit_assns_def by (auto simp: set_seen_keys)

lemma matched_particle:
  assumes "k \<in> TrackId ` set ps"
  shows "mcpartKey (matched_assn ps rs i_h k) < length ps"
    and "TrackId (ps ! mcpartKey (matched_assn ps rs i_h k)) = k"
    and "\<forall>j<mcpartKey (matched_assn ps rs i_h k). TrackId (ps ! j) \<noteq> k"
proof -
  from assms have lt: "lowest ps k < length ps" by (simp add: lowest_less_iff)
  then show "mcpartKey (matched_assn ps rs i_h k) < length ps" by (simp add: matched_assn_def)
  from lowest_hit [OF lt] show "TrackId (ps ! mcpartKey (matched_assn ps rs i_h k)) = k"
    by (simp add: matched_assn_def)
  show "\<forall>j<mcpartKey (matched_assn ps rs i_h k). TrackId (ps ! j) \<noteq> k"
    by (simp add: matched_assn_def lowest_before)
qed

lemma length_hit_assns:
  "length (hit_assns ps rs i_h) = card (trackID ` set rs \<inter> TrackId ` set ps)"
proof -
  let ?ks = "filter (\<lambda>k. k \<in> TrackId ` set ps) (seen_keys rs)"
  have "distinct ?ks" by (simp add: distinct_seen_keys)
  then have "length ?ks = card (set ?ks)" by (rule distinct_card [symmetric])
  moreover have "set ?ks = trackID ` set rs \<inter> TrackId ` set ps"
    by (auto simp: set_seen_keys)
  ultimately show ?thesis by (simp add: hit_assns_def)
qed

lemma length_filter_eq:
  "distinct xs \<Longrightarrow> length (filter (\<lambda>x. x = d) xs) = (if d \<in> set xs then 1 else 0)"
  by (induction xs) auto

lemma flagged_E:
  "length (filter (isMaxIDE \<circ> bthmd) (hit_assns ps rs i_h)) =
     (if dominant energy rs \<in> trackID ` set rs \<inter> TrackId ` set ps then 1 else 0)"
proof -
  let ?ks = "filter (\<lambda>k. k \<in> TrackId ` set ps) (seen_keys rs)"
  have "filter (isMaxIDE \<circ> bthmd) (hit_assns ps rs i_h) =
        map (matched_assn ps rs i_h) (filter (\<lambda>k. k = dominant energy rs) ?ks)"
    unfolding hit_assns_def filter_map by (simp add: comp_def matched_assn_def)
  moreover have "distinct ?ks" by (simp add: distinct_seen_keys)
  moreover have "set ?ks = trackID ` set rs \<inter> TrackId ` set ps"
    by (auto simp: set_seen_keys)
  ultimately show ?thesis by (simp add: length_filter_eq del: filter_filter)
qed

lemma flagged_N:
  "length (filter (isMaxIDEN \<circ> bthmd) (hit_assns ps rs i_h)) =
     (if dominant numElectrons rs \<in> trackID ` set rs \<inter> TrackId ` set ps then 1 else 0)"
proof -
  let ?ks = "filter (\<lambda>k. k \<in> TrackId ` set ps) (seen_keys rs)"
  have "filter (isMaxIDEN \<circ> bthmd) (hit_assns ps rs i_h) =
        map (matched_assn ps rs i_h) (filter (\<lambda>k. k = dominant numElectrons rs) ?ks)"
    unfolding hit_assns_def filter_map by (simp add: comp_def matched_assn_def)
  moreover have "distinct ?ks" by (simp add: distinct_seen_keys)
  moreover have "set ?ks = trackID ` set rs \<inter> TrackId ` set ps"
    by (auto simp: set_seen_keys)
  ultimately show ?thesis by (simp add: length_filter_eq del: filter_filter)
qed

lemma sum_summed:
  "distinct ks \<Longrightarrow> trackID ` set rs \<subseteq> set ks \<Longrightarrow>
   sum_list (map (summed f rs) ks) = sum_list (map f rs)"
proof (induction rs)
  case Nil
  show ?case by simp
next
  case (Cons t rs)
  have split: "summed f (t # rs) k = (if k = trackID t then f t else 0) + summed f rs k" for k
    by (simp add: summed_Cons)
  have "sum_list (map (\<lambda>k. if k = trackID t then f t else 0) ks) = f t"
    using Cons.prems by (simp add: sum_list_distinct_conv_sum_set)
  with Cons show ?case by (simp add: split sum_list_addf)
qed

lemma sum_list_divide:
  "sum_list (map (\<lambda>k. g k / c) ks) = sum_list (map g ks) / (c::real)"
  by (induction ks) (simp_all add: add_divide_distrib)

lemma fractions_sum:
  assumes all: "\<forall>t\<in>set rs. trackID t \<in> TrackId ` set ps" and pos: "sum_list (map f rs) \<noteq> 0"
  shows "\<exists>fs. map (\<lambda>k. fdiv (summed f rs k) (sum_list (map f rs)))
                 (filter (\<lambda>k. k \<in> TrackId ` set ps) (seen_keys rs)) = map Fin fs \<and>
              sum_list fs = 1"
proof -
  let ?tot = "sum_list (map f rs)"
  from all have keep: "filter (\<lambda>k. k \<in> TrackId ` set ps) (seen_keys rs) = seen_keys rs"
    by (auto simp: filter_id_conv set_seen_keys)
  let ?fs = "map (\<lambda>k. summed f rs k / ?tot) (seen_keys rs)"
  have "sum_list ?fs = sum_list (map (summed f rs) (seen_keys rs)) / ?tot"
    by (simp add: sum_list_divide)
  also have "\<dots> = 1"
    using pos by (simp add: sum_summed distinct_seen_keys set_seen_keys)
  finally have "sum_list ?fs = 1" .
  moreover from pos have "map (\<lambda>k. fdiv (summed f rs k) ?tot) (seen_keys rs) = map Fin ?fs"
    by (simp add: fdiv_def)
  ultimately show ?thesis unfolding keep by blast
qed

subsection \<open>Zero sums and membership in the outcome\<close>

lemma summed_all_zero: "\<forall>t\<in>set rs. f t = 0 \<Longrightarrow> summed f rs k = 0"
  unfolding summed_def by (induction rs) simp_all

lemma first_reach_unique:
  assumes k: "first_reach f rs k" and k': "first_reach f rs k'"
    and eq: "summed f rs k = summed f rs k'"
  shows "k = k'"
proof -
  from k obtain i where i: "i < length rs" "trackID (rs ! i) = k"
    "summed f (take (Suc i) rs) k = summed f rs k"
    "\<forall>j<i. \<forall>x\<in>trackID ` set rs. summed f (take (Suc j) rs) x < summed f rs k"
    unfolding first_reach_def by blast
  from k' obtain i' where i': "i' < length rs" "trackID (rs ! i') = k'"
    "summed f (take (Suc i') rs) k' = summed f rs k'"
    "\<forall>j<i'. \<forall>x\<in>trackID ` set rs. summed f (take (Suc j) rs) x < summed f rs k'"
    unfolding first_reach_def by blast
  from i(1,2) have kin: "k \<in> trackID ` set rs" by (metis imageI nth_mem)
  from i'(1,2) have kin': "k' \<in> trackID ` set rs" by (metis imageI nth_mem)
  have "\<not> i < i'"
  proof
    assume "i < i'"
    with i'(4) kin have "summed f (take (Suc i) rs) k < summed f rs k'" by blast
    with i(3) eq show False by simp
  qed
  moreover have "\<not> i' < i"
  proof
    assume "i' < i"
    with i(4) kin' have "summed f (take (Suc i') rs) k' < summed f rs k" by blast
    with i'(3) eq show False by simp
  qed
  ultimately have "i = i'" by simp
  with i(2) i'(2) show ?thesis by simp
qed

lemma first_reach_all_zero:
  assumes zero: "\<forall>t\<in>set rs. f t = 0" and ne: "rs \<noteq> []" and fr: "first_reach f rs d"
  shows "d = trackID (hd rs)"
proof -
  from fr obtain i where i: "i < length rs" "trackID (rs ! i) = d"
    and before: "\<forall>j<i. \<forall>k'\<in>trackID ` set rs. summed f (take (Suc j) rs) k' < summed f rs d"
    unfolding first_reach_def by blast
  have "i = 0"
  proof (rule ccontr)
    assume "i \<noteq> 0"
    then have "0 < i" by simp
    moreover from ne have "trackID (hd rs) \<in> trackID ` set rs" by simp
    ultimately have "summed f (take (Suc 0) rs) (trackID (hd rs)) < summed f rs d"
      using before by blast
    moreover have "summed f rs d = 0" by (rule summed_all_zero [OF zero])
    moreover have "\<forall>t\<in>set (take (Suc 0) rs). f t = 0" using zero by (auto dest: in_set_takeD)
    then have "summed f (take (Suc 0) rs) (trackID (hd rs)) = 0" by (rule summed_all_zero)
    ultimately show False by simp
  qed
  with i(2) ne show ?thesis by (simp add: hd_conv_nth)
qed

lemma dominant_all_zero:
  assumes "\<forall>t\<in>set rs. f t = 0" and "rs \<noteq> []"
  shows "dominant f rs = trackID (hd rs)"
proof -
  from assms(1) have "\<forall>t\<in>set rs. 0 \<le> f t" by simp
  from dominant_props(3) [OF this assms(2)] show ?thesis
    by (rule first_reach_all_zero [OF assms])
qed

lemma in_assns_of_produce:
  assumes "\<not> isRealData evt" "mcparticles evt = Some ps" "hits evt = Some hs"
    "length ps \<le> 2 ^ 31" "a \<in> set (assns_of (produce bt evt))"
  shows "hitKey a < length hs \<and> a \<in> set (hit_assns ps (bt (hs ! hitKey a)) (hitKey a))"
proof -
  from assms(5) obtain j where j: "j < length hs" and a: "a \<in> set (hit_assns ps (bt (hs ! j)) j)"
    unfolding produce_simulated [OF assms(1-4)] assns_of_def by auto
  from hitKey_hit_assns [OF a] j a show ?thesis by simp
qed

lemma sum_list_all_zero: "\<forall>t\<in>set rs. f t = (0::real) \<Longrightarrow> sum_list (map f rs) = 0"
  by (induction rs) simp_all

subsection \<open>The sums as the module rounds them\<close>

lemma accumulated_Nil [simp]: "accumulated fl f [] k = 0"
  by (simp add: accumulated_def)

lemma accumulated_snoc:
  "accumulated fl f (rs @ [t]) k =
     (if trackID t = k then fl (accumulated fl f rs k + f t) else accumulated fl f rs k)"
  by (simp add: accumulated_def)

lemma accumulated_fixed: "rounding fl \<Longrightarrow> fl (accumulated fl f rs k) = accumulated fl f rs k"
  by (induction rs rule: rev_induct) (simp_all add: accumulated_snoc rounding_def)

lemma rounding_add_le:
  assumes "rounding fl" and "fl a = a" and "0 \<le> e"
  shows "a \<le> fl (a + e)"
proof -
  from assms(3) have "a \<le> a + e" by simp
  with assms(1) have "fl a \<le> fl (a + e)" unfolding rounding_def by blast
  with assms(2) show ?thesis by simp
qed

lemma accumulated_append_le:
  assumes r: "rounding fl" and nonneg: "\<forall>t\<in>set ys. 0 \<le> f t"
  shows "accumulated fl f xs k \<le> accumulated fl f (xs @ ys) k"
  using nonneg
proof (induction ys rule: rev_induct)
  case Nil
  show ?case by simp
next
  case (snoc t ys)
  then have le: "accumulated fl f xs k \<le> accumulated fl f (xs @ ys) k" and t: "0 \<le> f t"
    by simp_all
  have "accumulated fl f (xs @ ys) k \<le> fl (accumulated fl f (xs @ ys) k + f t)"
    by (rule rounding_add_le [OF r accumulated_fixed [OF r] t])
  with le show ?case
    unfolding append_assoc [symmetric] accumulated_snoc by simp
qed

lemma accumulated_take_le:
  assumes "rounding fl" and "\<forall>t\<in>set rs. 0 \<le> f t"
  shows "accumulated fl f (take n rs) k \<le> accumulated fl f rs k"
proof -
  from assms(2) have "\<forall>t\<in>set (drop n rs). 0 \<le> f t" by (auto dest: in_set_dropD)
  from accumulated_append_le [OF assms(1) this, of "take n rs" k] show ?thesis by simp
qed

subsection \<open>The loop over the records with roundings, field by field\<close>

lemma collector_at_add_E_fl:
  "collector_at (add_E_fl fl k x c) k' =
     (if k' = k then (collector_at c k)\<lparr>E := fl (E (collector_at c k) + x)\<rparr>
      else collector_at c k')"
  by (simp add: add_E_fl_def collector_at_update)

lemma collector_at_add_NumElectrons_fl:
  "collector_at (add_NumElectrons_fl fl k x c) k' =
     (if k' = k
      then (collector_at c k)\<lparr>NumElectrons := fl (NumElectrons (collector_at c k) + x)\<rparr>
      else collector_at c k')"
  by (simp add: add_NumElectrons_fl_def collector_at_update)

lemma keys_add_E_fl: "map fst (add_E_fl fl k x c) = add_key (map fst c) k"
  by (simp add: add_E_fl_def add_key_def update_keys)

lemma keys_add_NumElectrons_fl: "map fst (add_NumElectrons_fl fl k x c) = add_key (map fst c) k"
  by (simp add: add_NumElectrons_fl_def add_key_def update_keys)

lemma step_fl_tote: "tote (trkide_step_fl fl db ps t s) = db (tote s + energy t)"
  by (simp add: trkide_step_fl_def Let_def)

lemma step_fl_totn: "totn (trkide_step_fl fl db ps t s) = db (totn s + numElectrons t)"
  by (simp add: trkide_step_fl_def Let_def)

lemma step_fl_out: "MCPartHitassn (trkide_step_fl fl db ps t s) = MCPartHitassn s"
  by (simp add: trkide_step_fl_def Let_def)

lemma step_fl_lookup:
  "trkid_lookup (trkide_step_fl fl db ps t s) = find_mcparticle ps (trackID t) (trkid_lookup s)"
  by (simp add: trkide_step_fl_def Let_def)

lemma step_fl_keys:
  "map fst (fTrkIDECollector (trkide_step_fl fl db ps t s)) =
     add_key (map fst (fTrkIDECollector s)) (trackID t)"
  by (simp add: trkide_step_fl_def Let_def keys_add_E_fl keys_add_NumElectrons_fl add_key_idem)

lemma step_fl_E:
  "E (collector_at (fTrkIDECollector (trkide_step_fl fl db ps t s)) k) =
     (if k = trackID t then fl (E (collector_at (fTrkIDECollector s) k) + energy t)
      else E (collector_at (fTrkIDECollector s) k))"
  by (simp add: trkide_step_fl_def Let_def collector_at_add_E_fl collector_at_add_NumElectrons_fl)

lemma step_fl_NumElectrons:
  "NumElectrons (collector_at (fTrkIDECollector (trkide_step_fl fl db ps t s)) k) =
     (if k = trackID t
      then fl (NumElectrons (collector_at (fTrkIDECollector s) k) + numElectrons t)
      else NumElectrons (collector_at (fTrkIDECollector s) k))"
  by (simp add: trkide_step_fl_def Let_def collector_at_add_E_fl collector_at_add_NumElectrons_fl)

lemma step_fl_maxe:
  "maxe (trkide_step_fl fl db ps t s) =
     (if fl (E (collector_at (fTrkIDECollector s) (trackID t)) + energy t) > maxe s
      then fl (E (collector_at (fTrkIDECollector s) (trackID t)) + energy t) else maxe s)"
  by (simp add: trkide_step_fl_def Let_def collector_at_add_E_fl)

lemma step_fl_maxtrkid:
  "maxtrkid (trkide_step_fl fl db ps t s) =
     (if fl (E (collector_at (fTrkIDECollector s) (trackID t)) + energy t) > maxe s
      then trackID t else maxtrkid s)"
  by (simp add: trkide_step_fl_def Let_def collector_at_add_E_fl)

lemma step_fl_maxn:
  "maxn (trkide_step_fl fl db ps t s) =
     (if fl (NumElectrons (collector_at (fTrkIDECollector s) (trackID t)) + numElectrons t)
           > maxn s
      then fl (NumElectrons (collector_at (fTrkIDECollector s) (trackID t)) + numElectrons t)
      else maxn s)"
  by (simp add: trkide_step_fl_def Let_def collector_at_add_E_fl collector_at_add_NumElectrons_fl)

lemma step_fl_maxntrkid:
  "maxntrkid (trkide_step_fl fl db ps t s) =
     (if fl (NumElectrons (collector_at (fTrkIDECollector s) (trackID t)) + numElectrons t)
           > maxn s
      then trackID t else maxntrkid s)"
  by (simp add: trkide_step_fl_def Let_def collector_at_add_E_fl collector_at_add_NumElectrons_fl)

lemma loop_fl_tote:
  "tote (trkide_loop_fl fl db ps rs s) = foldl (\<lambda>a t. db (a + energy t)) (tote s) rs"
  by (induction rs arbitrary: s) (simp_all add: step_fl_tote)

lemma loop_fl_totn:
  "totn (trkide_loop_fl fl db ps rs s) = foldl (\<lambda>a t. db (a + numElectrons t)) (totn s) rs"
  by (induction rs arbitrary: s) (simp_all add: step_fl_totn)

lemma loop_fl_out: "MCPartHitassn (trkide_loop_fl fl db ps rs s) = MCPartHitassn s"
  by (induction rs arbitrary: s) (simp_all add: step_fl_out)

lemma loop_fl_keys:
  "map fst (fTrkIDECollector (trkide_loop_fl fl db ps rs s)) =
     foldl add_key (map fst (fTrkIDECollector s)) (map trackID rs)"
  by (induction rs arbitrary: s) (simp_all add: step_fl_keys)

lemma loop_fl_E:
  "E (collector_at (fTrkIDECollector (trkide_loop_fl fl db ps rs s)) k) =
     foldl (\<lambda>a t. if trackID t = k then fl (a + energy t) else a)
       (E (collector_at (fTrkIDECollector s) k)) rs"
  by (induction rs arbitrary: s) (simp_all add: step_fl_E)

lemma loop_fl_NumElectrons:
  "NumElectrons (collector_at (fTrkIDECollector (trkide_loop_fl fl db ps rs s)) k) =
     foldl (\<lambda>a t. if trackID t = k then fl (a + numElectrons t) else a)
       (NumElectrons (collector_at (fTrkIDECollector s) k)) rs"
  by (induction rs arbitrary: s) (simp_all add: step_fl_NumElectrons)

lemma loop_fl_lookup:
  "trkid_lookup (trkide_loop_fl fl db ps rs s) k =
     (case trkid_lookup s k of
        Some v \<Rightarrow> Some v
      | None \<Rightarrow> if k \<in> trackID ` set rs then Some (resolved ps k) else None)"
  by (induction rs arbitrary: s)
     (auto simp: step_fl_lookup find_mcparticle_resolved split: option.splits)

subsection \<open>The running maximum of the rounded sums\<close>

lemma view_E_step_fl:
  "view_E (trkide_step_fl fl db ps t s) = max_step_fl fl energy (view_E s) t"
  by (simp add: view_E_def max_step_fl_def step_fl_E step_fl_maxe step_fl_maxtrkid fun_eq_iff)

lemma view_N_step_fl:
  "view_N (trkide_step_fl fl db ps t s) = max_step_fl fl numElectrons (view_N s) t"
  by (simp add: view_N_def max_step_fl_def step_fl_NumElectrons step_fl_maxn step_fl_maxntrkid
        fun_eq_iff)

lemma view_E_loop_fl:
  "view_E (trkide_loop_fl fl db ps rs s) = foldl (max_step_fl fl energy) (view_E s) rs"
  by (induction rs arbitrary: s) (simp_all add: view_E_step_fl)

lemma view_N_loop_fl:
  "view_N (trkide_loop_fl fl db ps rs s) = foldl (max_step_fl fl numElectrons) (view_N s) rs"
  by (induction rs arbitrary: s) (simp_all add: view_N_step_fl)

lemma max_inv_fl_Nil: "max_inv_fl fl f [] (\<lambda>k. 0, - 1, - 1)"
  by (simp add: max_inv_fl_def)

lemma max_inv_fl_step:
  assumes r: "rounding fl" and inv: "max_inv_fl fl f rs v" and nonneg: "0 \<le> f t"
  shows "max_inv_fl fl f (rs @ [t]) (max_step_fl fl f v t)"
proof -
  obtain acc mx mid where v: "v = (acc, mx, mid)" by (cases v)
  let ?a = "fl (acc (trackID t) + f t)"
  define mx' where "mx' = (if ?a > mx then ?a else mx)"
  define mid' where "mid' = (if ?a > mx then trackID t else mid)"
  have ms: "max_step_fl fl f v t = (acc(trackID t := ?a), mx', mid')"
    by (simp add: v max_step_fl_def mx'_def mid'_def)
  have mx_le: "mx \<le> mx'" and a_le: "?a \<le> mx'" by (simp_all add: mx'_def)
  from inv v have acc: "\<And>k. acc k = accumulated fl f rs k"
    and emp: "rs = [] \<Longrightarrow> mx = - 1"
    and bound: "\<And>j k. j < length rs \<Longrightarrow> accumulated fl f (take (Suc j) rs) k \<le> mx"
    and ex: "rs \<noteq> [] \<Longrightarrow> \<exists>i<length rs. trackID (rs ! i) = mid \<and>
               accumulated fl f (take (Suc i) rs) mid = mx \<and>
               (\<forall>j<i. \<forall>k. accumulated fl f (take (Suc j) rs) k < mx)"
    by (simp_all add: max_inv_fl_def)
  have full: "\<And>k. accumulated fl f (rs @ [t]) k = (if k = trackID t then ?a else acc k)"
    by (auto simp: accumulated_snoc acc)
  have c1: "\<forall>k. (acc(trackID t := ?a)) k = accumulated fl f (rs @ [t]) k"
    by (simp add: full)
  have a_nonneg: "0 \<le> ?a" if "rs = []"
  proof -
    from that acc [of "trackID t"] have "acc (trackID t) = 0" by simp
    with nonneg have "0 \<le> acc (trackID t) + f t" by simp
    with r have "fl 0 \<le> ?a" unfolding rounding_def by blast
    with r show ?thesis by (simp add: rounding_def)
  qed
  have acc_le: "acc k \<le> mx'" for k
  proof (cases "rs = []")
    case True
    with acc [of k] a_nonneg a_le show ?thesis by simp
  next
    case False
    then have "length rs - 1 < length rs" by simp
    from bound [OF this, of k] False mx_le show ?thesis by (simp add: acc)
  qed
  have c3: "\<forall>j<length (rs @ [t]). \<forall>k. accumulated fl f (take (Suc j) (rs @ [t])) k \<le> mx'"
  proof (intro allI impI)
    fix j k assume j: "j < length (rs @ [t])"
    show "accumulated fl f (take (Suc j) (rs @ [t])) k \<le> mx'"
    proof (cases "j < length rs")
      case True
      then show ?thesis using bound [of j k] mx_le by simp
    next
      case False
      with j have "take (Suc j) (rs @ [t]) = rs @ [t]" by simp
      then show ?thesis using acc_le [of k] a_le by (simp add: full)
    qed
  qed
  have c4: "\<exists>i<length (rs @ [t]). trackID ((rs @ [t]) ! i) = mid' \<and>
              accumulated fl f (take (Suc i) (rs @ [t])) mid' = mx' \<and>
              (\<forall>j<i. \<forall>k. accumulated fl f (take (Suc j) (rs @ [t])) k < mx')"
  proof (cases "?a > mx")
    case True
    then have eq: "mx' = ?a" "mid' = trackID t" by (simp_all add: mx'_def mid'_def)
    have "\<forall>j<length rs. \<forall>k. accumulated fl f (take (Suc j) (rs @ [t])) k < ?a"
    proof (intro allI impI)
      fix j k assume "j < length rs"
      then have "accumulated fl f (take (Suc j) rs) k \<le> mx" by (rule bound)
      with True \<open>j < length rs\<close> show "accumulated fl f (take (Suc j) (rs @ [t])) k < ?a"
        by simp
    qed
    then show ?thesis
      unfolding eq by (intro exI [of _ "length rs"]) (simp add: full)
  next
    case False
    then have eq: "mx' = mx" "mid' = mid" by (simp_all add: mx'_def mid'_def)
    have "rs \<noteq> []"
    proof
      assume e: "rs = []"
      with emp have "mx = - 1" by simp
      with False a_nonneg [OF e] show False by simp
    qed
    from ex [OF this] obtain i where i: "i < length rs" "trackID (rs ! i) = mid"
      "accumulated fl f (take (Suc i) rs) mid = mx"
      "\<forall>j<i. \<forall>k. accumulated fl f (take (Suc j) rs) k < mx"
      by blast
    from i show ?thesis
      unfolding eq by (intro exI [of _ i]) (simp add: nth_append)
  qed
  from c1 c3 c4 show ?thesis
    unfolding ms max_inv_fl_def by simp
qed

lemma max_inv_fl_foldl:
  "rounding fl \<Longrightarrow> \<forall>t\<in>set rs. 0 \<le> f t \<Longrightarrow>
   max_inv_fl fl f rs (foldl (max_step_fl fl f) (\<lambda>k. 0, - 1, - 1) rs)"
proof (induction rs rule: rev_induct)
  case Nil
  show ?case by (simp add: max_inv_fl_Nil)
next
  case (snoc t rs)
  then show ?case by (simp add: max_inv_fl_step)
qed

lemma dominant_fl_props:
  assumes r: "rounding fl" and nonneg: "\<forall>t\<in>set rs. 0 \<le> f t" and ne: "rs \<noteq> []"
  shows "dominant_fl fl f rs \<in> trackID ` set rs"
    and "\<forall>k. accumulated fl f rs k \<le> accumulated fl f rs (dominant_fl fl f rs)"
    and "first_reach_fl fl f rs (dominant_fl fl f rs)"
proof -
  obtain acc mx mid where v: "foldl (max_step_fl fl f) (\<lambda>k. 0, - 1, - 1) rs = (acc, mx, mid)"
    by (cases "foldl (max_step_fl fl f) (\<lambda>k. 0, - 1, - 1) rs")
  then have d: "dominant_fl fl f rs = mid" by (simp add: dominant_fl_def)
  from max_inv_fl_foldl [OF r nonneg] v have inv: "max_inv_fl fl f rs (acc, mx, mid)" by simp
  from inv ne have "\<exists>i<length rs. trackID (rs ! i) = mid \<and>
      accumulated fl f (take (Suc i) rs) mid = mx \<and>
      (\<forall>j<i. \<forall>k. accumulated fl f (take (Suc j) rs) k < mx)"
    by (simp add: max_inv_fl_def)
  then obtain i where i1: "i < length rs" and i2: "trackID (rs ! i) = mid"
    and i3: "accumulated fl f (take (Suc i) rs) mid = mx"
    and i4: "\<forall>j<i. \<forall>k. accumulated fl f (take (Suc j) rs) k < mx"
    by blast
  from inv have b: "\<And>j k. j < length rs \<Longrightarrow> accumulated fl f (take (Suc j) rs) k \<le> mx"
    by (simp add: max_inv_fl_def)
  have bound: "accumulated fl f rs k \<le> mx" for k
    using b [of "length rs - 1" k] ne by simp
  have "mx \<le> accumulated fl f rs mid"
    using accumulated_take_le [OF r nonneg, of "Suc i" mid] i3 by simp
  with bound [of mid] have mx: "mx = accumulated fl f rs mid" by simp
  from i1 have "rs ! i \<in> set rs" by simp
  then have "trackID (rs ! i) \<in> trackID ` set rs" by (rule imageI)
  with i2 show "dominant_fl fl f rs \<in> trackID ` set rs" unfolding d by simp
  from bound show "\<forall>k. accumulated fl f rs k \<le> accumulated fl f rs (dominant_fl fl f rs)"
    unfolding d mx by simp
  from i1 i2 i3 i4 show "first_reach_fl fl f rs (dominant_fl fl f rs)"
    unfolding d first_reach_fl_def mx by (intro exI [of _ i]) simp
qed

lemma loop_fl_maxtrkid:
  "maxtrkid (trkide_loop_fl fl db ps rs (reset_hit s)) = dominant_fl fl energy rs"
proof -
  have "maxtrkid (trkide_loop_fl fl db ps rs (reset_hit s)) =
        snd (snd (view_E (trkide_loop_fl fl db ps rs (reset_hit s))))"
    by (simp add: view_E_def)
  then show ?thesis by (simp add: view_E_loop_fl view_E_reset dominant_fl_def)
qed

lemma loop_fl_maxntrkid:
  "maxntrkid (trkide_loop_fl fl db ps rs (reset_hit s)) = dominant_fl fl numElectrons rs"
proof -
  have "maxntrkid (trkide_loop_fl fl db ps rs (reset_hit s)) =
        snd (snd (view_N (trkide_loop_fl fl db ps rs (reset_hit s))))"
    by (simp add: view_N_def)
  then show ?thesis by (simp add: view_N_loop_fl view_N_reset dominant_fl_def)
qed

subsection \<open>The associations of a hit and of the event with roundings\<close>

lemma make_bthmd_fl_out [simp]:
  "make_bthmd_fl fl db (s\<lparr>MCPartHitassn := x\<rparr>) k v = make_bthmd_fl fl db s k v"
  by (simp add: make_bthmd_fl_def)

lemma assn_loop_fl_cached:
  "\<forall>(k, v)\<in>set c. trkid_lookup s k = Some (resolved ps k) \<Longrightarrow>
   assn_loop_fl fl db i_h c s =
     s\<lparr>MCPartHitassn := MCPartHitassn s @
          map (\<lambda>(k, v). \<lparr>hitKey = i_h, mcpartKey = to_size_t (resolved ps k),
                         bthmd = make_bthmd_fl fl db s k v\<rparr>)
              (filter (\<lambda>(k, v). resolved ps k \<noteq> - 1) c)\<rparr>"
proof (induction c arbitrary: s)
  case Nil
  show ?case by simp
next
  case (Cons kv c)
  obtain k v where kv: "kv = (k, v)" by (cases kv)
  from Cons.prems kv have here: "trkid_lookup s k = Some (resolved ps k)"
    and rest: "\<forall>(k, v)\<in>set c. trkid_lookup s k = Some (resolved ps k)" by simp_all
  have same: "s\<lparr>trkid_lookup := trkid_lookup s\<rparr> = s" by simp
  show ?case
  proof (cases "resolved ps k = - 1")
    case True
    with here rest Cons.IH [of s] show ?thesis
      by (simp add: kv lookup_at_def same)
  next
    case False
    let ?s = "s\<lparr>MCPartHitassn := MCPartHitassn s @
                [\<lparr>hitKey = i_h, mcpartKey = to_size_t (resolved ps k),
                  bthmd = make_bthmd_fl fl db s k v\<rparr>]\<rparr>"
    from rest have "\<forall>(k, v)\<in>set c. trkid_lookup ?s k = Some (resolved ps k)" by simp
    from Cons.IH [OF this] False here show ?thesis
      by (simp add: kv lookup_at_def same)
  qed
qed

lemma hit_body_fl_assns:
  assumes len: "length ps \<le> 2 ^ 31" and ok: "cache_ok ps (trkid_lookup s)"
  shows "MCPartHitassn (hit_body_fl fl db ps rs i_h s) =
           MCPartHitassn s @ hit_assns_fl fl db ps rs i_h"
    and "cache_ok ps (trkid_lookup (hit_body_fl fl db ps rs i_h s))"
proof -
  let ?s1 = "trkide_loop_fl fl db ps rs (reset_hit s)"
  let ?c = "fTrkIDECollector ?s1"
  have keys: "map fst ?c = seen_keys rs"
    by (simp add: loop_fl_keys seen_keys_def reset_hit_def)
  have dist: "distinct (map fst ?c)" unfolding keys by (rule distinct_seen_keys)
  have look0: "trkid_lookup (reset_hit s) = trkid_lookup s" by (simp add: reset_hit_def)
  have look: "trkid_lookup ?s1 k = Some (resolved ps k)" if "k \<in> trackID ` set rs" for k
    using that ok by (auto simp: loop_fl_lookup look0 cache_ok_def split: option.splits)
  have ok1: "cache_ok ps (trkid_lookup ?s1)"
    using ok by (auto simp: cache_ok_def loop_fl_lookup look0 split: option.splits if_splits)
  have inkeys: "k \<in> trackID ` set rs" if "(k, v) \<in> set ?c" for k v
  proof -
    from that have "k \<in> set (map fst ?c)" by force
    then show ?thesis unfolding keys by (simp add: set_seen_keys)
  qed
  have cached: "\<forall>(k, v)\<in>set ?c. trkid_lookup ?s1 k = Some (resolved ps k)"
    using look inkeys by blast
  have out1: "MCPartHitassn ?s1 = MCPartHitassn s" by (simp add: loop_fl_out reset_hit_def)
  have val: "v = \<lparr>E = accumulated fl energy rs k, NumElectrons = accumulated fl numElectrons rs k\<rparr>"
    if "(k, v) \<in> set ?c" for k v
  proof -
    from collector_values [OF dist that] have "v = collector_at ?c k" by simp
    moreover have "E (collector_at ?c k) = accumulated fl energy rs k"
      by (simp add: loop_fl_E reset_at accumulated_def)
    moreover have "NumElectrons (collector_at ?c k) = accumulated fl numElectrons rs k"
      by (simp add: loop_fl_NumElectrons reset_at accumulated_def)
    ultimately show ?thesis by (cases v) simp
  qed
  have tot: "tote ?s1 = total_db db energy rs" "totn ?s1 = total_db db numElectrons rs"
    by (simp_all add: loop_fl_tote loop_fl_totn reset_hit_def total_db_def)
  have entry: "\<lparr>hitKey = i_h, mcpartKey = to_size_t (resolved ps k),
                 bthmd = make_bthmd_fl fl db ?s1 k v\<rparr>
               = matched_assn_fl fl db ps rs i_h k"
    if "(k, v) \<in> set ?c" "resolved ps k \<noteq> - 1" for k v
  proof -
    from that(2) len have "k \<in> TrackId ` set ps" by (simp add: resolved_iff)
    from resolved_matched(2) [OF len this] val [OF that(1)] show ?thesis
      by (simp add: matched_assn_fl_def make_bthmd_fl_def tot loop_fl_maxtrkid loop_fl_maxntrkid)
  qed
  have f_eq: "filter (\<lambda>(k, v). resolved ps k \<noteq> - 1) ?c
              = filter ((\<lambda>k. k \<in> TrackId ` set ps) \<circ> fst) ?c"
    by (rule filter_cong) (auto simp: resolved_iff [OF len])
  have m_eq: "map (\<lambda>(k, v). \<lparr>hitKey = i_h, mcpartKey = to_size_t (resolved ps k),
                         bthmd = make_bthmd_fl fl db ?s1 k v\<rparr>)
            (filter (\<lambda>(k, v). resolved ps k \<noteq> - 1) ?c)
        = map (matched_assn_fl fl db ps rs i_h \<circ> fst)
            (filter (\<lambda>(k, v). resolved ps k \<noteq> - 1) ?c)"
    by (rule map_cong) (auto simp: entry)
  have h_eq: "map (matched_assn_fl fl db ps rs i_h \<circ> fst)
                (filter ((\<lambda>k. k \<in> TrackId ` set ps) \<circ> fst) ?c)
             = hit_assns_fl fl db ps rs i_h"
    unfolding hit_assns_fl_def by (simp add: filter_map flip: keys)
  have emitted:
    "map (\<lambda>(k, v). \<lparr>hitKey = i_h, mcpartKey = to_size_t (resolved ps k),
                         bthmd = make_bthmd_fl fl db ?s1 k v\<rparr>)
            (filter (\<lambda>(k, v). resolved ps k \<noteq> - 1) ?c) = hit_assns_fl fl db ps rs i_h"
    unfolding m_eq unfolding f_eq h_eq ..
  have body: "hit_body_fl fl db ps rs i_h s =
              ?s1\<lparr>MCPartHitassn := MCPartHitassn s @ hit_assns_fl fl db ps rs i_h\<rparr>"
    unfolding hit_body_fl_def Let_def assn_loop_fl_cached [OF cached] emitted out1 ..
  show "MCPartHitassn (hit_body_fl fl db ps rs i_h s) =
          MCPartHitassn s @ hit_assns_fl fl db ps rs i_h"
    unfolding body by simp
  show "cache_ok ps (trkid_lookup (hit_body_fl fl db ps rs i_h s))"
    unfolding body using ok1 by simp
qed

lemma hit_loop_fl_assns:
  "length ps \<le> 2 ^ 31 \<Longrightarrow> cache_ok ps (trkid_lookup s) \<Longrightarrow>
   MCPartHitassn (hit_loop_fl fl db bt ps hs i_h s) =
     MCPartHitassn s @
     concat (map (\<lambda>j. hit_assns_fl fl db ps (bt (hs ! j)) j) [i_h..<length hs])"
proof (induction fl db bt ps hs i_h s rule: hit_loop_fl.induct)
  case (1 fl db bt ps hs i_h s)
  show ?case
  proof (cases "i_h < length hs")
    case True
    let ?s = "hit_body_fl fl db ps (bt (hs ! i_h)) i_h s"
    from hit_body_fl_assns [OF "1.prems"] have
      out: "MCPartHitassn ?s = MCPartHitassn s @ hit_assns_fl fl db ps (bt (hs ! i_h)) i_h"
      and ok: "cache_ok ps (trkid_lookup ?s)" by simp_all
    from "1.IH" [OF True "1.prems"(1) ok] out True show ?thesis
      by (subst hit_loop_fl.simps) (simp add: upt_conv_Cons)
  next
    case False
    then show ?thesis by (subst hit_loop_fl.simps) simp
  qed
qed

lemma hitKey_hit_assns_fl: "a \<in> set (hit_assns_fl fl db ps rs j) \<Longrightarrow> hitKey a = j"
  by (auto simp: hit_assns_fl_def matched_assn_fl_def)

lemma filter_hit_assns_fl:
  "filter (\<lambda>a. hitKey a = i) (hit_assns_fl fl db ps rs j) =
     (if j = i then hit_assns_fl fl db ps rs j else [])"
  by (auto simp: filter_empty_conv hitKey_hit_assns_fl filter_id_conv)

lemma filter_concat_hits_fl:
  "i < n \<Longrightarrow>
   filter (\<lambda>a. hitKey a = i) (concat (map (\<lambda>j. hit_assns_fl fl db ps (g j) j) [0..<n])) =
     hit_assns_fl fl db ps (g i) i"
proof (induction n)
  case 0
  then show ?case by simp
next
  case (Suc n)
  show ?case
  proof (cases "i < n")
    case True
    with Suc.IH show ?thesis by (simp add: filter_hit_assns_fl)
  next
    case False
    with Suc.prems have i: "i = n" by simp
    have "filter (\<lambda>a. hitKey a = n)
            (concat (map (\<lambda>j. hit_assns_fl fl db ps (g j) j) [0..<n])) = []"
      by (auto simp: filter_empty_conv dest: hitKey_hit_assns_fl)
    then show ?thesis by (simp add: i filter_hit_assns_fl)
  qed
qed

lemma produce_fl_simulated:
  assumes "\<not> isRealData evt" "mcparticles evt = Some ps" "hits evt = Some hs"
    "length ps \<le> 2 ^ 31"
  shows "produce_fl fl db bt evt =
     Inr \<lparr>put = Some (concat (map (\<lambda>j. hit_assns_fl fl db ps (bt (hs ! j)) j)
                                [0..<length hs])),
          cerr = []\<rparr>"
proof -
  have "cache_ok ps (trkid_lookup init_locals)" by (simp add: cache_ok_def init_locals_def)
  from hit_loop_fl_assns [OF assms(4) this, of fl db bt hs 0] assms(1-3) show ?thesis
    by (simp add: produce_fl_def init_locals_def)
qed

lemma assns_of_hit_produce_fl:
  assumes "\<not> isRealData evt" "mcparticles evt = Some ps" "hits evt = Some hs"
    "length ps \<le> 2 ^ 31" "i_h < length hs"
  shows "assns_of_hit (produce_fl fl db bt evt) i_h = hit_assns_fl fl db ps (bt (hs ! i_h)) i_h"
  unfolding produce_fl_simulated [OF assms(1-4)] assns_of_hit_def assns_of_def
  using filter_concat_hits_fl [OF assms(5), of fl db ps "\<lambda>j. bt (hs ! j)"] by simp

lemma in_hit_assns_fl:
  "a \<in> set (hit_assns_fl fl db ps rs i_h) \<longleftrightarrow>
     (\<exists>k. k \<in> trackID ` set rs \<and> k \<in> TrackId ` set ps \<and> a = matched_assn_fl fl db ps rs i_h k)"
  unfolding hit_assns_fl_def by (auto simp: set_seen_keys)

lemma matched_fl_particle:
  assumes "k \<in> TrackId ` set ps"
  shows "TrackId (ps ! mcpartKey (matched_assn_fl fl db ps rs i_h k)) = k"
proof -
  from assms have lt: "lowest ps k < length ps" by (simp add: lowest_less_iff)
  from lowest_hit [OF lt] show ?thesis by (simp add: matched_assn_fl_def)
qed

subsection \<open>Without rounding the two embeddings agree\<close>

lemma trkide_step_fl_exact: "trkide_step_fl (\<lambda>x. x) (\<lambda>x. x) ps t s = trkide_step ps t s"
  by (simp add: trkide_step_fl_def trkide_step_def add_E_fl_def add_E_def
        add_NumElectrons_fl_def add_NumElectrons_def)

lemma trkide_loop_fl_exact: "trkide_loop_fl (\<lambda>x. x) (\<lambda>x. x) ps rs s = trkide_loop ps rs s"
  by (induction rs arbitrary: s) (simp_all add: trkide_step_fl_exact)

lemma make_bthmd_fl_exact: "make_bthmd_fl (\<lambda>x. x) (\<lambda>x. x) s k v = make_bthmd s k v"
  by (simp add: make_bthmd_fl_def make_bthmd_def fdiv_fl_def fdiv_def)

lemma assn_loop_fl_exact: "assn_loop_fl (\<lambda>x. x) (\<lambda>x. x) i_h c s = assn_loop i_h c s"
  by (induction i_h c s rule: assn_loop.induct) (simp_all add: make_bthmd_fl_exact Let_def split: prod.splits)

lemma hit_body_fl_exact: "hit_body_fl (\<lambda>x. x) (\<lambda>x. x) ps rs i_h s = hit_body ps rs i_h s"
  by (simp add: hit_body_fl_def hit_body_def trkide_loop_fl_exact assn_loop_fl_exact)

lemma hit_loop_fl_exact:
  "hit_loop_fl (\<lambda>x. x) (\<lambda>x. x) bt ps hs i_h s = hit_loop bt ps hs i_h s"
proof (induction bt ps hs i_h s rule: hit_loop.induct)
  case (1 bt ps hs i_h s)
  show ?case
  proof (cases "i_h < length hs")
    case True
    with "1.IH" show ?thesis
      by (subst hit_loop_fl.simps, subst hit_loop.simps) (simp add: hit_body_fl_exact)
  next
    case False
    then show ?thesis by (subst hit_loop_fl.simps, subst hit_loop.simps) simp
  qed
qed

lemma produce_fl_exact: "produce_fl (\<lambda>x. x) (\<lambda>x. x) bt evt = produce bt evt"
  by (simp add: produce_fl_def produce_def hit_loop_fl_exact split: option.splits)

lemma rounding_round_down: "rounding round_down"
  by (auto simp: rounding_def round_down_def floor_mono)

subsection \<open>Evaluation\<close>

text \<open>The equations that evaluate the module on a concrete event.\<close>

lemmas eval_defs =
  produce_def init_locals_def hit_loop.simps hit_body_def reset_hit_def trkide_step_def
  add_E_def add_NumElectrons_def collector_at_def find_mcparticle_def scan_mcpartList.simps
  to_int_def to_size_t_def lookup_at_def make_bthmd_def fdiv_def Let_def
  assns_of_hit_def assns_of_def particle_def ide_def simulated_def

lemmas eval_fl_defs =
  produce_fl_def init_locals_def hit_loop_fl.simps hit_body_fl_def reset_hit_def
  trkide_step_fl_def add_E_fl_def add_NumElectrons_fl_def collector_at_def find_mcparticle_def
  scan_mcpartList.simps to_int_def to_size_t_def lookup_at_def make_bthmd_fl_def fdiv_fl_def
  Let_def assns_of_hit_def assns_of_def particle_def ide_def simulated_def round_down_def

text \<open>
  The tie of track ids 5 and 7 below, under any rounding that leaves the numbers 1 and 2
  unchanged, as the rounding to \<^verbatim>\<open>float\<close> does.
\<close>

lemma tie_flag_any_rounding:
  assumes "fl 1 = 1" and "fl 2 = 2"
  shows "map mcpartKey (filter (isMaxIDE \<circ> bthmd)
           (assns_of_hit (produce_fl fl db id (simulated [particle 5, particle 7]
                            [[ide 5 1 1, ide 7 2 2, ide 5 1 1]])) 0)) = [1] \<and>
         map mcpartKey (filter (isMaxIDEN \<circ> bthmd)
           (assns_of_hit (produce_fl fl db id (simulated [particle 5, particle 7]
                            [[ide 5 1 1, ide 7 2 2, ide 5 1 1]])) 0)) = [1]"
  using assms
  by (simp add: produce_fl_def init_locals_def hit_loop_fl.simps hit_body_fl_def reset_hit_def
        trkide_step_fl_def add_E_fl_def add_NumElectrons_fl_def collector_at_def
        find_mcparticle_def scan_mcpartList.simps to_int_def to_size_t_def lookup_at_def
        make_bthmd_fl_def Let_def assns_of_hit_def assns_of_def particle_def ide_def
        simulated_def)

section \<open>The properties\<close>

text \<open>
  C1, as amended. The sums are the ones the module holds: \<^verbatim>\<open>float\<close> sums, each addition
  rounded (\<open>accumulated fl\<close>, for any rounding \<open>fl\<close> that is monotone and leaves zero and
  rounded values unchanged). In a simulated event with a particle list whose positions fit
  \<^verbatim>\<open>int\<close> and with non-negative energies and electron numbers, every association of a hit
  carries the sums of the track id of the particle it refers to. The association flagged
  \<^verbatim>\<open>isMaxIDE\<close> is of a track id whose summed energy is maximal among all track ids; among
  track ids of equal maximal sum it is the one whose running sum reaches that maximum first
  in record order, not the one that occurs first. The same holds for \<^verbatim>\<open>isMaxIDEN\<close> and
  the number of electrons.
\<close>

theorem flagged_trackID_maximal:
  assumes "rounding fl"
    and "\<not> isRealData evt" and "mcparticles evt = Some ps" and "hits evt = Some hs"
    and "length ps \<le> 2 ^ 31" and "i_h < length hs"
    and "\<forall>t\<in>set (HitToTrackID (hs ! i_h)). 0 \<le> energy t \<and> 0 \<le> numElectrons t"
    and "a \<in> set (assns_of_hit (produce_fl fl db HitToTrackID evt) i_h)"
  shows "bthmd_energy (bthmd a) =
           accumulated fl energy (HitToTrackID (hs ! i_h)) (TrackId (ps ! mcpartKey a)) \<and>
         bthmd_numElectrons (bthmd a) =
           accumulated fl numElectrons (HitToTrackID (hs ! i_h)) (TrackId (ps ! mcpartKey a)) \<and>
         (isMaxIDE (bthmd a) \<longrightarrow>
            (\<forall>k. accumulated fl energy (HitToTrackID (hs ! i_h)) k \<le>
                   accumulated fl energy (HitToTrackID (hs ! i_h)) (TrackId (ps ! mcpartKey a))) \<and>
            first_reach_fl fl energy (HitToTrackID (hs ! i_h)) (TrackId (ps ! mcpartKey a))) \<and>
         (isMaxIDEN (bthmd a) \<longrightarrow>
            (\<forall>k. accumulated fl numElectrons (HitToTrackID (hs ! i_h)) k \<le>
                   accumulated fl numElectrons (HitToTrackID (hs ! i_h))
                     (TrackId (ps ! mcpartKey a))) \<and>
            first_reach_fl fl numElectrons (HitToTrackID (hs ! i_h))
              (TrackId (ps ! mcpartKey a)))"
proof -
  let ?rs = "HitToTrackID (hs ! i_h)"
  note r = assms(1)
  from assms(8) have "a \<in> set (hit_assns_fl fl db ps ?rs i_h)"
    by (simp add: assns_of_hit_produce_fl [OF assms(2-6)])
  then obtain k where kr: "k \<in> trackID ` set ?rs" and kp: "k \<in> TrackId ` set ps"
    and a: "a = matched_assn_fl fl db ps ?rs i_h k"
    unfolding in_hit_assns_fl by blast
  have key: "TrackId (ps ! mcpartKey a) = k" unfolding a by (rule matched_fl_particle [OF kp])
  from kr have ne: "?rs \<noteq> []" by auto
  from assms(7) have nnE: "\<forall>t\<in>set ?rs. 0 \<le> energy t"
    and nnN: "\<forall>t\<in>set ?rs. 0 \<le> numElectrons t" by simp_all
  have sums: "bthmd_energy (bthmd a) = accumulated fl energy ?rs k"
    "bthmd_numElectrons (bthmd a) = accumulated fl numElectrons ?rs k"
    by (simp_all add: a matched_assn_fl_def)
  have flagE: "(\<forall>k'. accumulated fl energy ?rs k' \<le> accumulated fl energy ?rs k) \<and>
               first_reach_fl fl energy ?rs k"
    if "isMaxIDE (bthmd a)"
  proof -
    from that have "k = dominant_fl fl energy ?rs" by (simp add: a matched_assn_fl_def)
    with dominant_fl_props(2,3) [OF r nnE ne] show ?thesis by simp
  qed
  have flagN: "(\<forall>k'. accumulated fl numElectrons ?rs k' \<le> accumulated fl numElectrons ?rs k) \<and>
               first_reach_fl fl numElectrons ?rs k"
    if "isMaxIDEN (bthmd a)"
  proof -
    from that have "k = dominant_fl fl numElectrons ?rs" by (simp add: a matched_assn_fl_def)
    with dominant_fl_props(2,3) [OF r nnN ne] show ?thesis by simp
  qed
  from sums flagE flagN show ?thesis unfolding key by blast
qed

theorem flagged_trackID_maximal_witness:
  "accumulated round_down energy [ide 7 2 2, ide 5 2 2, ide 5 (1 / 2) (1 / 2)] 5 \<le>
     accumulated round_down energy [ide 7 2 2, ide 5 2 2, ide 5 (1 / 2) (1 / 2)] 7 \<and>
   first_reach_fl round_down energy [ide 7 2 2, ide 5 2 2, ide 5 (1 / 2) (1 / 2)] 7 \<and>
   first_reach_fl round_down numElectrons [ide 7 2 2, ide 5 2 2, ide 5 (1 / 2) (1 / 2)] 7"
proof -
  let ?ps = "[particle 5, particle 7]"
  let ?rs = "[ide 7 2 2, ide 5 2 2, ide 5 (1 / 2) (1 / 2)]"
  let ?a = "\<lparr>hitKey = 0, mcpartKey = 1,
             bthmd = \<lparr>ideFraction = Fin 0, isMaxIDE = True,
                      ideNFraction = Fin 0, isMaxIDEN = True,
                      bthmd_energy = 2, bthmd_numElectrons = 2\<rparr>\<rparr>"
  have h1: "\<not> isRealData (simulated ?ps [?rs])" and h2: "mcparticles (simulated ?ps [?rs]) = Some ?ps"
    and h3: "hits (simulated ?ps [?rs]) = Some [?rs]" by (simp_all add: simulated_def)
  have h4: "length ?ps \<le> 2 ^ 31" and h5: "0 < length [?rs]" by simp_all
  have h6: "\<forall>t\<in>set (id ([?rs] ! 0)). 0 \<le> energy t \<and> 0 \<le> numElectrons t"
    by (simp add: ide_def)
  have h7: "?a \<in> set (assns_of_hit (produce_fl round_down round_down id (simulated ?ps [?rs])) 0)"
    by (simp add: eval_fl_defs)
  have k: "TrackId (?ps ! mcpartKey ?a) = 7" by (simp add: particle_def)
  have r: "id ([?rs] ! 0) = ?rs" by simp
  have f: "isMaxIDE (bthmd ?a)" "isMaxIDEN (bthmd ?a)" by simp_all
  from flagged_trackID_maximal
         [where HitToTrackID = id, OF rounding_round_down h1 h2 h3 h4 h5 h6 h7] f
  show ?thesis unfolding k r by blast
qed

text \<open>
  C1 as stated fails. The records have track ids 5, 7, 5 with energies 1, 2, 1 and as many
  electrons: whole numbers, which every rounding that leaves 1 and 2 unchanged adds
  exactly (\<open>tie_flag_any_rounding\<close>). Both track ids end with the sum 2 and track id 5 is
  the first in record order, yet the one association of the hit that is flagged refers to
  the particle at position 1, the one with track id 7.
\<close>

theorem tie_flag_not_first_seen_counterexample:
  "summed energy [ide 5 1 1, ide 7 2 2, ide 5 1 1] 5 = summed energy [ide 5 1 1, ide 7 2 2, ide 5 1 1] 7 \<and>
   summed numElectrons [ide 5 1 1, ide 7 2 2, ide 5 1 1] 5 =
     summed numElectrons [ide 5 1 1, ide 7 2 2, ide 5 1 1] 7 \<and>
   trackID (hd [ide 5 1 1, ide 7 2 2, ide 5 1 1]) = 5 \<and>
   TrackId ([particle 5, particle 7] ! 0) = 5 \<and>
   TrackId ([particle 5, particle 7] ! 1) = 7 \<and>
   map mcpartKey (filter (isMaxIDE \<circ> bthmd)
     (assns_of_hit (produce id (simulated [particle 5, particle 7]
                      [[ide 5 1 1, ide 7 2 2, ide 5 1 1]])) 0)) = [1] \<and>
   map mcpartKey (filter (isMaxIDEN \<circ> bthmd)
     (assns_of_hit (produce id (simulated [particle 5, particle 7]
                      [[ide 5 1 1, ide 7 2 2, ide 5 1 1]])) 0)) = [1]"
proof -
  have flags:
    "map mcpartKey (filter (isMaxIDE \<circ> bthmd)
       (assns_of_hit (produce id (simulated [particle 5, particle 7]
                        [[ide 5 1 1, ide 7 2 2, ide 5 1 1]])) 0)) = [1] \<and>
     map mcpartKey (filter (isMaxIDEN \<circ> bthmd)
       (assns_of_hit (produce id (simulated [particle 5, particle 7]
                        [[ide 5 1 1, ide 7 2 2, ide 5 1 1]])) 0)) = [1]"
    using tie_flag_any_rounding [of "\<lambda>x. x" "\<lambda>x. x"] unfolding produce_fl_exact by simp
  have sums:
    "summed energy [ide 5 1 1, ide 7 2 2, ide 5 1 1] 5 =
       summed energy [ide 5 1 1, ide 7 2 2, ide 5 1 1] 7"
    "summed numElectrons [ide 5 1 1, ide 7 2 2, ide 5 1 1] 5 =
       summed numElectrons [ide 5 1 1, ide 7 2 2, ide 5 1 1] 7"
    "trackID (hd [ide 5 1 1, ide 7 2 2, ide 5 1 1]) = 5"
    "TrackId ([particle 5, particle 7] ! 0) = 5"
    "TrackId ([particle 5, particle 7] ! 1) = 7"
    by (simp_all add: summed_def ide_def particle_def)
  from sums flags show ?thesis by blast
qed

text \<open>
  C2, as amended. In a simulated event with a particle list whose positions fit \<^verbatim>\<open>int\<close>,
  at most one association of a hit is flagged \<^verbatim>\<open>isMaxIDE\<close>: exactly one when the track
  id that the record loop leaves in \<^verbatim>\<open>maxtrkid\<close> is a track id of the hit that a particle
  carries, and none otherwise. With at least one record and non-negative energies
  \<^verbatim>\<open>maxtrkid\<close> is a track id of the hit. The same holds for \<^verbatim>\<open>isMaxIDEN\<close> and
  \<^verbatim>\<open>maxntrkid\<close>.
\<close>

theorem flagged_entries_count:
  assumes "\<not> isRealData evt" and "mcparticles evt = Some ps" and "hits evt = Some hs"
    and "length ps \<le> 2 ^ 31" and "i_h < length hs"
  shows "length (filter (isMaxIDE \<circ> bthmd) (assns_of_hit (produce HitToTrackID evt) i_h)) =
           (if maxtrkid (trkide_loop ps (HitToTrackID (hs ! i_h)) (reset_hit s))
                 \<in> trackID ` set (HitToTrackID (hs ! i_h)) \<inter> TrackId ` set ps
            then 1 else 0) \<and>
         length (filter (isMaxIDEN \<circ> bthmd) (assns_of_hit (produce HitToTrackID evt) i_h)) =
           (if maxntrkid (trkide_loop ps (HitToTrackID (hs ! i_h)) (reset_hit s))
                 \<in> trackID ` set (HitToTrackID (hs ! i_h)) \<inter> TrackId ` set ps
            then 1 else 0) \<and>
         (HitToTrackID (hs ! i_h) \<noteq> [] \<and> (\<forall>t\<in>set (HitToTrackID (hs ! i_h)). 0 \<le> energy t) \<longrightarrow>
            maxtrkid (trkide_loop ps (HitToTrackID (hs ! i_h)) (reset_hit s))
              \<in> trackID ` set (HitToTrackID (hs ! i_h))) \<and>
         (HitToTrackID (hs ! i_h) \<noteq> [] \<and>
          (\<forall>t\<in>set (HitToTrackID (hs ! i_h)). 0 \<le> numElectrons t) \<longrightarrow>
            maxntrkid (trkide_loop ps (HitToTrackID (hs ! i_h)) (reset_hit s))
              \<in> trackID ` set (HitToTrackID (hs ! i_h)))"
  unfolding assns_of_hit_produce [OF assms] loop_maxtrkid loop_maxntrkid flagged_E flagged_N
  using dominant_props(1) [of "HitToTrackID (hs ! i_h)"] by blast

theorem flagged_entries_count_witness:
  "length (filter (isMaxIDE \<circ> bthmd)
     (assns_of_hit (produce id (simulated [particle 5, particle 7]
        [[ide 5 3 1, ide 5 2 1, ide 7 4 5]])) 0)) = 1 \<and>
   length (filter (isMaxIDEN \<circ> bthmd)
     (assns_of_hit (produce id (simulated [particle 5, particle 7]
        [[ide 5 3 1, ide 5 2 1, ide 7 4 5]])) 0)) = 1"
proof -
  let ?ps = "[particle 5, particle 7]"
  let ?rs = "[ide 5 3 1, ide 5 2 1, ide 7 4 5]"
  have h1: "\<not> isRealData (simulated ?ps [?rs])" and h2: "mcparticles (simulated ?ps [?rs]) = Some ?ps"
    and h3: "hits (simulated ?ps [?rs]) = Some [?rs]" by (simp_all add: simulated_def)
  have h4: "length ?ps \<le> 2 ^ 31" and h5: "0 < length [?rs]" by simp_all
  have m: "maxtrkid (trkide_loop ?ps (id ([?rs] ! 0)) (reset_hit init_locals)) = 5"
    "maxntrkid (trkide_loop ?ps (id ([?rs] ! 0)) (reset_hit init_locals)) = 7"
    by (simp_all add: eval_defs)
  have s: "trackID ` set (id ([?rs] ! 0)) \<inter> TrackId ` set ?ps = {5, 7}"
    by (auto simp: ide_def particle_def)
  from flagged_entries_count [where HitToTrackID = id and s = init_locals, OF h1 h2 h3 h4 h5]
  show ?thesis unfolding m s by simp
qed

text \<open>
  C2 as stated fails. With records of track ids 5 (energy 3) and 7 (energy 1) and only track
  id 7 carried by a particle, the hit gets one association and it is flagged neither
  \<^verbatim>\<open>isMaxIDE\<close> nor \<^verbatim>\<open>isMaxIDEN\<close>.
\<close>

theorem dominant_unmatched_no_flag_counterexample:
  "assns_of_hit (produce id (simulated [particle 7] [[ide 5 3 3, ide 7 1 1]])) 0 =
     [\<lparr>hitKey = 0, mcpartKey = 0,
       bthmd = \<lparr>ideFraction = Fin (1 / 4), isMaxIDE = False,
                ideNFraction = Fin (1 / 4), isMaxIDEN = False,
                bthmd_energy = 1, bthmd_numElectrons = 1\<rparr>\<rparr>]"
  by (simp add: eval_defs)

text \<open>
  C3, as amended. In a simulated event with a particle list whose positions fit \<^verbatim>\<open>int\<close>,
  for a hit whose records all carry track ids of particles: when the total energy of the
  records is positive, the energy fractions of the hit's associations are numbers that sum
  to 1 (in exact arithmetic), and likewise the charge fractions when the total number of
  electrons is positive.
\<close>

theorem fractions_sum_to_one:
  assumes "\<not> isRealData evt" and "mcparticles evt = Some ps" and "hits evt = Some hs"
    and "length ps \<le> 2 ^ 31" and "i_h < length hs"
    and "\<forall>t\<in>set (HitToTrackID (hs ! i_h)). trackID t \<in> TrackId ` set ps"
  shows "(0 < sum_list (map energy (HitToTrackID (hs ! i_h))) \<longrightarrow>
            (\<exists>fs. map (ideFraction \<circ> bthmd) (assns_of_hit (produce HitToTrackID evt) i_h) =
                     map Fin fs \<and> sum_list fs = 1)) \<and>
         (0 < sum_list (map numElectrons (HitToTrackID (hs ! i_h))) \<longrightarrow>
            (\<exists>fs. map (ideNFraction \<circ> bthmd) (assns_of_hit (produce HitToTrackID evt) i_h) =
                     map Fin fs \<and> sum_list fs = 1))"
proof -
  let ?rs = "HitToTrackID (hs ! i_h)"
  have E: "map (ideFraction \<circ> bthmd) (hit_assns ps ?rs i_h) =
           map (\<lambda>k. fdiv (summed energy ?rs k) (sum_list (map energy ?rs)))
               (filter (\<lambda>k. k \<in> TrackId ` set ps) (seen_keys ?rs))"
    by (simp add: hit_assns_def matched_assn_def comp_def)
  have N: "map (ideNFraction \<circ> bthmd) (hit_assns ps ?rs i_h) =
           map (\<lambda>k. fdiv (summed numElectrons ?rs k) (sum_list (map numElectrons ?rs)))
               (filter (\<lambda>k. k \<in> TrackId ` set ps) (seen_keys ?rs))"
    by (simp add: hit_assns_def matched_assn_def comp_def)
  have "\<exists>fs. map (ideFraction \<circ> bthmd) (hit_assns ps ?rs i_h) = map Fin fs \<and> sum_list fs = 1"
    if "0 < sum_list (map energy ?rs)"
  proof -
    from that have "sum_list (map energy ?rs) \<noteq> 0" by simp
    from fractions_sum [OF assms(6) this] show ?thesis unfolding E .
  qed
  moreover
  have "\<exists>fs. map (ideNFraction \<circ> bthmd) (hit_assns ps ?rs i_h) = map Fin fs \<and> sum_list fs = 1"
    if "0 < sum_list (map numElectrons ?rs)"
  proof -
    from that have "sum_list (map numElectrons ?rs) \<noteq> 0" by simp
    from fractions_sum [OF assms(6) this] show ?thesis unfolding N .
  qed
  ultimately show ?thesis unfolding assns_of_hit_produce [OF assms(1-5)] by blast
qed

theorem fractions_sum_to_one_witness:
  "(\<exists>fs. map (ideFraction \<circ> bthmd)
            (assns_of_hit (produce id (simulated [particle 5, particle 7]
               [[ide 5 3 1, ide 5 2 1, ide 7 4 5]])) 0) = map Fin fs \<and> sum_list fs = 1) \<and>
   (\<exists>fs. map (ideNFraction \<circ> bthmd)
            (assns_of_hit (produce id (simulated [particle 5, particle 7]
               [[ide 5 3 1, ide 5 2 1, ide 7 4 5]])) 0) = map Fin fs \<and> sum_list fs = 1)"
proof -
  let ?ps = "[particle 5, particle 7]"
  let ?rs = "[ide 5 3 1, ide 5 2 1, ide 7 4 5]"
  have h1: "\<not> isRealData (simulated ?ps [?rs])" and h2: "mcparticles (simulated ?ps [?rs]) = Some ?ps"
    and h3: "hits (simulated ?ps [?rs]) = Some [?rs]" by (simp_all add: simulated_def)
  have h4: "length ?ps \<le> 2 ^ 31" and h5: "0 < length [?rs]" by simp_all
  have h6: "\<forall>t\<in>set (id ([?rs] ! 0)). trackID t \<in> TrackId ` set ?ps"
    by (simp add: ide_def particle_def)
  have p: "0 < sum_list (map energy (id ([?rs] ! 0)))"
    "0 < sum_list (map numElectrons (id ([?rs] ! 0)))" by (simp_all add: ide_def)
  from fractions_sum_to_one [where HitToTrackID = id, OF h1 h2 h3 h4 h5 h6] p
  show ?thesis by blast
qed

text \<open>
  C3 as stated fails. The records have track ids 5 and 7 with energy 1 and one electron each,
  and only track id 5 is carried by a particle: the totals are 2, and the one association of
  the hit has the fractions 1/2.
\<close>

theorem fractions_unmatched_counterexample:
  "sum_list (map energy [ide 5 1 1, ide 7 1 1]) = 2 \<and>
   sum_list (map numElectrons [ide 5 1 1, ide 7 1 1]) = 2 \<and>
   assns_of_hit (produce id (simulated [particle 5] [[ide 5 1 1, ide 7 1 1]])) 0 =
     [\<lparr>hitKey = 0, mcpartKey = 0,
       bthmd = \<lparr>ideFraction = Fin (1 / 2), isMaxIDE = True,
                ideNFraction = Fin (1 / 2), isMaxIDEN = True,
                bthmd_energy = 1, bthmd_numElectrons = 1\<rparr>\<rparr>]"
  by (simp add: eval_defs)

text \<open>
  C4. In a simulated event with a particle list whose positions fit \<^verbatim>\<open>int\<close>, let \<open>t\<close>
  be a record of a hit whose track id no particle carries. The hit gets one association per
  distinct track id that a particle carries, so none for the track id of \<open>t\<close>: no
  association of the hit refers to a particle with that track id. Every association of the
  hit has as its fractions its own energy and number of electrons divided by the totals
  over all records of the hit, \<open>t\<close> included.
\<close>

theorem unmatched_counts_in_totals:
  assumes "\<not> isRealData evt" and "mcparticles evt = Some ps" and "hits evt = Some hs"
    and "length ps \<le> 2 ^ 31" and "i_h < length hs"
    and "t \<in> set (HitToTrackID (hs ! i_h))" and "trackID t \<notin> TrackId ` set ps"
  shows "length (assns_of_hit (produce HitToTrackID evt) i_h) =
           card (trackID ` set (HitToTrackID (hs ! i_h)) \<inter> TrackId ` set ps) \<and>
         (\<forall>a\<in>set (assns_of_hit (produce HitToTrackID evt) i_h).
            mcpartKey a < length ps \<and>
            TrackId (ps ! mcpartKey a) \<noteq> trackID t \<and>
            ideFraction (bthmd a) =
              fdiv (bthmd_energy (bthmd a))
                (energy t + sum_list (map energy (remove1 t (HitToTrackID (hs ! i_h))))) \<and>
            ideNFraction (bthmd a) =
              fdiv (bthmd_numElectrons (bthmd a))
                (numElectrons t +
                 sum_list (map numElectrons (remove1 t (HitToTrackID (hs ! i_h))))))"
proof -
  let ?rs = "HitToTrackID (hs ! i_h)"
  note A = assns_of_hit_produce [OF assms(1-5), of HitToTrackID]
  have tote: "energy t + sum_list (map energy (remove1 t ?rs)) = sum_list (map energy ?rs)"
    using assms(6) by (simp add: sum_list_map_remove1)
  have totn: "numElectrons t + sum_list (map numElectrons (remove1 t ?rs)) =
              sum_list (map numElectrons ?rs)"
    using assms(6) by (simp add: sum_list_map_remove1)
  have "mcpartKey a < length ps \<and> TrackId (ps ! mcpartKey a) \<noteq> trackID t \<and>
        ideFraction (bthmd a) = fdiv (bthmd_energy (bthmd a)) (sum_list (map energy ?rs)) \<and>
        ideNFraction (bthmd a) =
          fdiv (bthmd_numElectrons (bthmd a)) (sum_list (map numElectrons ?rs))"
    if "a \<in> set (hit_assns ps ?rs i_h)" for a
  proof -
    from that obtain k where k: "k \<in> TrackId ` set ps" and a: "a = matched_assn ps ?rs i_h k"
      unfolding in_hit_assns by blast
    have lt: "mcpartKey a < length ps" unfolding a by (rule matched_particle(1) [OF k])
    have "TrackId (ps ! mcpartKey a) = k" unfolding a by (rule matched_particle(2) [OF k])
    with k assms(7) have ne: "TrackId (ps ! mcpartKey a) \<noteq> trackID t" by metis
    have "ideFraction (bthmd a) = fdiv (bthmd_energy (bthmd a)) (sum_list (map energy ?rs))"
      and "ideNFraction (bthmd a) =
             fdiv (bthmd_numElectrons (bthmd a)) (sum_list (map numElectrons ?rs))"
      by (simp_all add: a matched_assn_def)
    with lt ne show ?thesis by blast
  qed
  then show ?thesis unfolding A tote totn by (simp add: length_hit_assns)
qed

theorem unmatched_counts_in_totals_witness:
  "assns_of_hit (produce id (simulated [particle 5] [[ide 5 1 1, ide 7 3 1]])) 0 =
     [\<lparr>hitKey = 0, mcpartKey = 0,
       bthmd = \<lparr>ideFraction = Fin (1 / 4), isMaxIDE = False,
                ideNFraction = Fin (1 / 2), isMaxIDEN = True,
                bthmd_energy = 1, bthmd_numElectrons = 1\<rparr>\<rparr>] \<and>
   length (assns_of_hit (produce id (simulated [particle 5] [[ide 5 1 1, ide 7 3 1]])) 0) = 1"
proof -
  let ?ps = "[particle 5]"
  let ?hs = "[[ide 5 1 1, ide 7 3 1]]"
  have h1: "\<not> isRealData (simulated ?ps ?hs)" and h2: "mcparticles (simulated ?ps ?hs) = Some ?ps"
    and h3: "hits (simulated ?ps ?hs) = Some ?hs" by (simp_all add: simulated_def)
  have h4: "length ?ps \<le> 2 ^ 31" and h5: "0 < length ?hs" by simp_all
  have h6: "ide 7 3 1 \<in> set (id (?hs ! 0))" by simp
  have h7: "trackID (ide 7 3 1) \<notin> TrackId ` set ?ps" by (simp add: ide_def particle_def)
  have c: "card (trackID ` set (id (?hs ! 0)) \<inter> TrackId ` set ?ps) = 1"
    by (simp add: ide_def particle_def)
  have e: "assns_of_hit (produce id (simulated ?ps ?hs)) 0 =
     [\<lparr>hitKey = 0, mcpartKey = 0,
       bthmd = \<lparr>ideFraction = Fin (1 / 4), isMaxIDE = False,
                ideNFraction = Fin (1 / 2), isMaxIDEN = True,
                bthmd_energy = 1, bthmd_numElectrons = 1\<rparr>\<rparr>]"
    by (simp add: eval_defs)
  from unmatched_counts_in_totals [where HitToTrackID = id, OF h1 h2 h3 h4 h5 h6 h7] c e show ?thesis by simp
qed

text \<open>
  C5. \<open>produce\<close> fetches the hit handle at line 127, after the real-data check of line
  108 and after \<^verbatim>\<open>getValidHandle\<close> has found the particle collection. For such an event,
  simulated and with its particle collection, a missing hit collection makes \<open>produce\<close>
  write the one line \<^verbatim>\<open>Hit handle is not valid!\<close> and return: \<^verbatim>\<open>put\<close> is never called,
  not even with an empty relation, and no hit is processed.
\<close>

theorem missing_hits_logged:
  "\<not> isRealData evt \<Longrightarrow> mcparticles evt = Some ps \<Longrightarrow> hits evt = None \<Longrightarrow>
   produce HitToTrackID evt = Inr \<lparr>put = None, cerr = [''Hit handle is not valid!'']\<rparr>"
  by (simp add: produce_def)

theorem missing_hits_logged_witness:
  "produce id \<lparr>isRealData = False, mcparticles = Some [particle 5], hits = None\<rparr>
     = Inr \<lparr>put = None, cerr = [''Hit handle is not valid!'']\<rparr>"
proof -
  let ?evt = "\<lparr>isRealData = False, mcparticles = Some [particle 5], hits = None\<rparr>
                :: TrackIDE list Event"
  have h1: "\<not> isRealData ?evt" and h2: "mcparticles ?evt = Some [particle 5]"
    and h3: "hits ?evt = None" by simp_all
  show ?thesis by (rule missing_hits_logged [OF h1 h2 h3])
qed

text \<open>
  C6. For a real-data event \<open>produce\<close> returns at once, whatever the event holds: it
  never calls \<^verbatim>\<open>put\<close>, writes nothing, and the event gets no association.
\<close>

theorem real_data_no_output:
  "isRealData evt \<Longrightarrow>
   produce HitToTrackID evt = Inr \<lparr>put = None, cerr = []\<rparr> \<and>
   assns_of (produce HitToTrackID evt) = []"
  by (simp add: produce_def assns_of_def)

theorem real_data_no_output_witness:
  "produce id \<lparr>isRealData = True, mcparticles = Some [particle 5], hits = Some [[ide 5 3 1]]\<rparr>
     = Inr \<lparr>put = None, cerr = []\<rparr> \<and>
   assns_of (produce id \<lparr>isRealData = True, mcparticles = Some [particle 5],
                          hits = Some [[ide 5 3 1]]\<rparr>) = []"
proof -
  have h: "isRealData \<lparr>isRealData = True, mcparticles = Some [particle 5],
                      hits = Some [[ide 5 3 1]]\<rparr>" by simp
  show ?thesis by (rule real_data_no_output [OF h])
qed

text \<open>
  C7. In a simulated event with a particle list whose positions fit \<^verbatim>\<open>int\<close>, a hit whose
  records all carry track ids of particles gets as many associations as its records have
  distinct track ids.
\<close>

theorem entries_per_distinct_trackID:
  assumes "\<not> isRealData evt" and "mcparticles evt = Some ps" and "hits evt = Some hs"
    and "length ps \<le> 2 ^ 31" and "i_h < length hs"
    and "\<forall>t\<in>set (HitToTrackID (hs ! i_h)). trackID t \<in> TrackId ` set ps"
  shows "length (assns_of_hit (produce HitToTrackID evt) i_h) =
         card (trackID ` set (HitToTrackID (hs ! i_h)))"
proof -
  from assms(6) have "trackID ` set (HitToTrackID (hs ! i_h)) \<inter> TrackId ` set ps =
                      trackID ` set (HitToTrackID (hs ! i_h))" by auto
  then show ?thesis
    by (simp add: assns_of_hit_produce [OF assms(1-5)] length_hit_assns)
qed

theorem entries_per_distinct_trackID_witness:
  "length (assns_of_hit
     (produce id (simulated [particle 5, particle 7] [[ide 5 3 1, ide 5 2 1, ide 7 4 5]])) 0) = 2"
proof -
  let ?ps = "[particle 5, particle 7]"
  let ?hs = "[[ide 5 3 1, ide 5 2 1, ide 7 4 5]]"
  have h1: "\<not> isRealData (simulated ?ps ?hs)" and h2: "mcparticles (simulated ?ps ?hs) = Some ?ps"
    and h3: "hits (simulated ?ps ?hs) = Some ?hs" by (simp_all add: simulated_def)
  have h4: "length ?ps \<le> 2 ^ 31" and h5: "0 < length ?hs" by simp_all
  have h6: "\<forall>t\<in>set (id (?hs ! 0)). trackID t \<in> TrackId ` set ?ps"
    by (simp add: ide_def particle_def)
  have "card (trackID ` set (id (?hs ! 0))) = 2" by (simp add: ide_def)
  with entries_per_distinct_trackID [where HitToTrackID = id, OF h1 h2 h3 h4 h5 h6] show ?thesis by simp
qed

text \<open>
  C8. In a simulated event with a particle list whose positions fit \<^verbatim>\<open>int\<close>, a hit
  without records gets no association, and the loop goes on: every hit of the event, before
  or after it, gets one association per distinct track id of its records that a particle
  carries.
\<close>

theorem empty_hit_no_entries:
  assumes "\<not> isRealData evt" and "mcparticles evt = Some ps" and "hits evt = Some hs"
    and "length ps \<le> 2 ^ 31" and "i_h < length hs" and "HitToTrackID (hs ! i_h) = []"
  shows "assns_of_hit (produce HitToTrackID evt) i_h = [] \<and>
         (\<forall>j<length hs. length (assns_of_hit (produce HitToTrackID evt) j) =
                          card (trackID ` set (HitToTrackID (hs ! j)) \<inter> TrackId ` set ps))"
proof -
  have "assns_of_hit (produce HitToTrackID evt) i_h = []"
    by (simp add: assns_of_hit_produce [OF assms(1-5)] assms(6) hit_assns_def seen_keys_def)
  moreover have "length (assns_of_hit (produce HitToTrackID evt) j) =
                 card (trackID ` set (HitToTrackID (hs ! j)) \<inter> TrackId ` set ps)"
    if "j < length hs" for j
    by (simp add: assns_of_hit_produce [OF assms(1-4) that] length_hit_assns)
  ultimately show ?thesis by simp
qed

theorem empty_hit_no_entries_witness:
  "assns_of_hit (produce id (simulated [particle 5] [[], [ide 5 3 1]])) 0 = [] \<and>
   length (assns_of_hit (produce id (simulated [particle 5] [[], [ide 5 3 1]])) 1) = 1"
proof -
  let ?ps = "[particle 5]"
  let ?hs = "[[], [ide 5 3 1]]"
  have h1: "\<not> isRealData (simulated ?ps ?hs)" and h2: "mcparticles (simulated ?ps ?hs) = Some ?ps"
    and h3: "hits (simulated ?ps ?hs) = Some ?hs" by (simp_all add: simulated_def)
  have h4: "length ?ps \<le> 2 ^ 31" and h5: "0 < length ?hs" and h6: "id (?hs ! 0) = []"
    by simp_all
  have "card (trackID ` set (id (?hs ! 1)) \<inter> TrackId ` set ?ps) = 1"
    by (simp add: ide_def particle_def)
  with empty_hit_no_entries [where HitToTrackID = id, OF h1 h2 h3 h4 h5 h6] show ?thesis by simp
qed

text \<open>
  C9. In a simulated event with a particle list whose positions fit \<^verbatim>\<open>int\<close>, take a hit
  with at least one record. With non-negative energies the record loop leaves a track id of
  the hit in \<^verbatim>\<open>maxtrkid\<close>. When every energy is zero it is the track id of the first
  record, and if a particle carries that track id the hit has an association that refers
  to that particle, is flagged \<^verbatim>\<open>isMaxIDE\<close>, and has the energy fraction 0/0, not a
  number. The same holds for the number of electrons, \<^verbatim>\<open>maxntrkid\<close> and \<^verbatim>\<open>isMaxIDEN\<close>.
\<close>

theorem zero_energy_first_record_flagged:
  assumes "\<not> isRealData evt" and "mcparticles evt = Some ps" and "hits evt = Some hs"
    and "length ps \<le> 2 ^ 31" and "i_h < length hs" and "HitToTrackID (hs ! i_h) \<noteq> []"
  shows "((\<forall>t\<in>set (HitToTrackID (hs ! i_h)). 0 \<le> energy t) \<longrightarrow>
            maxtrkid (trkide_loop ps (HitToTrackID (hs ! i_h)) (reset_hit s))
              \<in> trackID ` set (HitToTrackID (hs ! i_h))) \<and>
         ((\<forall>t\<in>set (HitToTrackID (hs ! i_h)). energy t = 0) \<longrightarrow>
            maxtrkid (trkide_loop ps (HitToTrackID (hs ! i_h)) (reset_hit s)) =
              trackID (hd (HitToTrackID (hs ! i_h))) \<and>
            (trackID (hd (HitToTrackID (hs ! i_h))) \<in> TrackId ` set ps \<longrightarrow>
               (\<exists>a\<in>set (assns_of_hit (produce HitToTrackID evt) i_h).
                  TrackId (ps ! mcpartKey a) = trackID (hd (HitToTrackID (hs ! i_h))) \<and>
                  isMaxIDE (bthmd a) \<and> ideFraction (bthmd a) = NaN))) \<and>
         ((\<forall>t\<in>set (HitToTrackID (hs ! i_h)). 0 \<le> numElectrons t) \<longrightarrow>
            maxntrkid (trkide_loop ps (HitToTrackID (hs ! i_h)) (reset_hit s))
              \<in> trackID ` set (HitToTrackID (hs ! i_h))) \<and>
         ((\<forall>t\<in>set (HitToTrackID (hs ! i_h)). numElectrons t = 0) \<longrightarrow>
            maxntrkid (trkide_loop ps (HitToTrackID (hs ! i_h)) (reset_hit s)) =
              trackID (hd (HitToTrackID (hs ! i_h))) \<and>
            (trackID (hd (HitToTrackID (hs ! i_h))) \<in> TrackId ` set ps \<longrightarrow>
               (\<exists>a\<in>set (assns_of_hit (produce HitToTrackID evt) i_h).
                  TrackId (ps ! mcpartKey a) = trackID (hd (HitToTrackID (hs ! i_h))) \<and>
                  isMaxIDEN (bthmd a) \<and> ideNFraction (bthmd a) = NaN)))"
proof -
  let ?rs = "HitToTrackID (hs ! i_h)"
  let ?k = "trackID (hd ?rs)"
  note ne = assms(6)
  from ne have kin: "?k \<in> trackID ` set ?rs" by simp
  have selE: "dominant energy ?rs \<in> trackID ` set ?rs" if "\<forall>t\<in>set ?rs. 0 \<le> energy t"
    by (rule dominant_props(1) [OF that ne])
  have selN: "dominant numElectrons ?rs \<in> trackID ` set ?rs"
    if "\<forall>t\<in>set ?rs. 0 \<le> numElectrons t"
    by (rule dominant_props(1) [OF that ne])
  have entry: "\<exists>a\<in>set (hit_assns ps ?rs i_h). TrackId (ps ! mcpartKey a) = ?k \<and>
                 isMaxIDE (bthmd a) = (?k = dominant energy ?rs) \<and>
                 isMaxIDEN (bthmd a) = (?k = dominant numElectrons ?rs) \<and>
                 ideFraction (bthmd a) = fdiv (summed energy ?rs ?k) (sum_list (map energy ?rs)) \<and>
                 ideNFraction (bthmd a) =
                   fdiv (summed numElectrons ?rs ?k) (sum_list (map numElectrons ?rs))"
    if kp: "?k \<in> TrackId ` set ps"
  proof -
    have "matched_assn ps ?rs i_h ?k \<in> set (hit_assns ps ?rs i_h)"
      unfolding in_hit_assns using kin kp by blast
    moreover have "TrackId (ps ! mcpartKey (matched_assn ps ?rs i_h ?k)) = ?k"
      by (rule matched_particle(2) [OF kp])
    ultimately show ?thesis by (intro bexI [of _ "matched_assn ps ?rs i_h ?k"])
      (simp_all add: matched_assn_def)
  qed
  have zeroE: "dominant energy ?rs = ?k \<and>
      (?k \<in> TrackId ` set ps \<longrightarrow>
         (\<exists>a\<in>set (hit_assns ps ?rs i_h). TrackId (ps ! mcpartKey a) = ?k \<and>
            isMaxIDE (bthmd a) \<and> ideFraction (bthmd a) = NaN))"
    if z: "\<forall>t\<in>set ?rs. energy t = 0"
  proof -
    have d: "dominant energy ?rs = ?k" by (rule dominant_all_zero [OF z ne])
    have "summed energy ?rs ?k = 0" by (rule summed_all_zero [OF z])
    moreover have "sum_list (map energy ?rs) = 0" by (rule sum_list_all_zero [OF z])
    ultimately have "fdiv (summed energy ?rs ?k) (sum_list (map energy ?rs)) = NaN"
      by (simp add: fdiv_def)
    with entry d show ?thesis by fastforce
  qed
  have zeroN: "dominant numElectrons ?rs = ?k \<and>
      (?k \<in> TrackId ` set ps \<longrightarrow>
         (\<exists>a\<in>set (hit_assns ps ?rs i_h). TrackId (ps ! mcpartKey a) = ?k \<and>
            isMaxIDEN (bthmd a) \<and> ideNFraction (bthmd a) = NaN))"
    if z: "\<forall>t\<in>set ?rs. numElectrons t = 0"
  proof -
    have d: "dominant numElectrons ?rs = ?k" by (rule dominant_all_zero [OF z ne])
    have "summed numElectrons ?rs ?k = 0" by (rule summed_all_zero [OF z])
    moreover have "sum_list (map numElectrons ?rs) = 0" by (rule sum_list_all_zero [OF z])
    ultimately have "fdiv (summed numElectrons ?rs ?k) (sum_list (map numElectrons ?rs)) = NaN"
      by (simp add: fdiv_def)
    with entry d show ?thesis by fastforce
  qed
  from selE selN zeroE zeroN show ?thesis
    unfolding assns_of_hit_produce [OF assms(1-5)] loop_maxtrkid loop_maxntrkid by blast
qed

theorem zero_energy_first_record_flagged_witness:
  "maxtrkid (trkide_loop [particle 5, particle 7] [ide 7 0 0, ide 5 0 0] (reset_hit init_locals)) = 7 \<and>
   maxntrkid (trkide_loop [particle 5, particle 7] [ide 7 0 0, ide 5 0 0] (reset_hit init_locals)) = 7 \<and>
   (\<exists>a\<in>set (assns_of_hit (produce id (simulated [particle 5, particle 7]
                  [[ide 7 0 0, ide 5 0 0]])) 0).
      TrackId ([particle 5, particle 7] ! mcpartKey a) = 7 \<and>
      isMaxIDE (bthmd a) \<and> ideFraction (bthmd a) = NaN) \<and>
   (\<exists>a\<in>set (assns_of_hit (produce id (simulated [particle 5, particle 7]
                  [[ide 7 0 0, ide 5 0 0]])) 0).
      TrackId ([particle 5, particle 7] ! mcpartKey a) = 7 \<and>
      isMaxIDEN (bthmd a) \<and> ideNFraction (bthmd a) = NaN)"
proof -
  let ?ps = "[particle 5, particle 7]"
  let ?rs = "[ide 7 0 0, ide 5 0 0]"
  have h1: "\<not> isRealData (simulated ?ps [?rs])" and h2: "mcparticles (simulated ?ps [?rs]) = Some ?ps"
    and h3: "hits (simulated ?ps [?rs]) = Some [?rs]" by (simp_all add: simulated_def)
  have h4: "length ?ps \<le> 2 ^ 31" and h5: "0 < length [?rs]" and h6: "id ([?rs] ! 0) \<noteq> []"
    by simp_all
  have r: "id ([?rs] ! 0) = ?rs" by simp
  have z: "\<forall>t\<in>set ?rs. energy t = 0" "\<forall>t\<in>set ?rs. numElectrons t = 0"
    by (simp_all add: ide_def)
  have k: "trackID (hd ?rs) = 7" "7 \<in> TrackId ` set ?ps" by (simp_all add: ide_def particle_def)
  from zero_energy_first_record_flagged
         [where HitToTrackID = id and s = init_locals, OF h1 h2 h3 h4 h5 h6] z k
  show ?thesis unfolding r k(1) by blast
qed

text \<open>
  C10. In a simulated event with a particle list whose positions fit \<^verbatim>\<open>int\<close>, let \<open>i\<close>
  be the lowest position of a particle with a given track id. Resolving that track id when
  the cache does not hold it stores \<open>i\<close>. Every association of the event refers to a
  particle of the list and carries the sums of that particle's track id over the records of
  its hit, and an association that refers to a particle with the given track id refers to
  the particle at \<open>i\<close>.
\<close>

theorem lowest_particle_bound:
  assumes "\<not> isRealData evt" and "mcparticles evt = Some ps" and "hits evt = Some hs"
    and "length ps \<le> 2 ^ 31" and "i < length ps"
    and "\<forall>j<i. TrackId (ps ! j) \<noteq> TrackId (ps ! i)"
  shows "(m (TrackId (ps ! i)) = None \<longrightarrow>
            find_mcparticle ps (TrackId (ps ! i)) m (TrackId (ps ! i)) = Some (int i)) \<and>
         (\<forall>a\<in>set (assns_of (produce HitToTrackID evt)).
            hitKey a < length hs \<and> mcpartKey a < length ps \<and>
            bthmd_energy (bthmd a) =
              summed energy (HitToTrackID (hs ! hitKey a)) (TrackId (ps ! mcpartKey a)) \<and>
            bthmd_numElectrons (bthmd a) =
              summed numElectrons (HitToTrackID (hs ! hitKey a)) (TrackId (ps ! mcpartKey a)) \<and>
            (TrackId (ps ! mcpartKey a) = TrackId (ps ! i) \<longrightarrow> mcpartKey a = i))"
proof -
  let ?k = "TrackId (ps ! i)"
  have low: "lowest ps ?k = i" by (rule lowest_unique [OF assms(5) refl assms(6)])
  from assms(5) have kp: "?k \<in> TrackId ` set ps" by simp
  have "resolved ps ?k = int i" using resolved_matched(1) [OF assms(4) kp] low by simp
  then have bind: "m ?k = None \<longrightarrow> find_mcparticle ps ?k m ?k = Some (int i)"
    by (simp add: find_mcparticle_resolved)
  have each: "hitKey a < length hs \<and> mcpartKey a < length ps \<and>
      bthmd_energy (bthmd a) =
        summed energy (HitToTrackID (hs ! hitKey a)) (TrackId (ps ! mcpartKey a)) \<and>
      bthmd_numElectrons (bthmd a) =
        summed numElectrons (HitToTrackID (hs ! hitKey a)) (TrackId (ps ! mcpartKey a)) \<and>
      (TrackId (ps ! mcpartKey a) = ?k \<longrightarrow> mcpartKey a = i)"
    if "a \<in> set (assns_of (produce HitToTrackID evt))" for a
  proof -
    let ?rs = "HitToTrackID (hs ! hitKey a)"
    from in_assns_of_produce [OF assms(1-4) that]
    have hk: "hitKey a < length hs" and "a \<in> set (hit_assns ps ?rs (hitKey a))" by simp_all
    then obtain k where kp': "k \<in> TrackId ` set ps" and a: "a = matched_assn ps ?rs (hitKey a) k"
      unfolding in_hit_assns by blast
    have key: "TrackId (ps ! mcpartKey a) = k"
      by (subst a) (rule matched_particle(2) [OF kp'])
    have lt: "mcpartKey a < length ps" by (subst a) (rule matched_particle(1) [OF kp'])
    have mk: "mcpartKey a = lowest ps k" by (subst a) (simp add: matched_assn_def)
    have sums: "bthmd_energy (bthmd a) = summed energy ?rs k"
      "bthmd_numElectrons (bthmd a) = summed numElectrons ?rs k"
      by (subst a, simp add: matched_assn_def)+
    from hk lt sums mk low show ?thesis unfolding key by simp
  qed
  from bind each show ?thesis by blast
qed

theorem lowest_particle_bound_witness:
  "find_mcparticle [particle 5, particle 7, particle 5] 5 Map.empty 5 = Some 0 \<and>
   assns_of (produce id (simulated [particle 5, particle 7, particle 5] [[ide 5 3 1]])) =
     [\<lparr>hitKey = 0, mcpartKey = 0,
       bthmd = \<lparr>ideFraction = Fin 1, isMaxIDE = True, ideNFraction = Fin 1, isMaxIDEN = True,
                bthmd_energy = 3, bthmd_numElectrons = 1\<rparr>\<rparr>]"
proof -
  let ?ps = "[particle 5, particle 7, particle 5]"
  let ?hs = "[[ide 5 3 1]]"
  have h1: "\<not> isRealData (simulated ?ps ?hs)" and h2: "mcparticles (simulated ?ps ?hs) = Some ?ps"
    and h3: "hits (simulated ?ps ?hs) = Some ?hs" by (simp_all add: simulated_def)
  have h4: "length ?ps \<le> 2 ^ 31" and h5: "0 < length ?ps"
    and h6: "\<forall>j<0. TrackId (?ps ! j) \<noteq> TrackId (?ps ! 0)" by simp_all
  have k: "TrackId (?ps ! 0) = 5" by (simp add: particle_def)
  have e: "assns_of (produce id (simulated ?ps ?hs)) =
     [\<lparr>hitKey = 0, mcpartKey = 0,
       bthmd = \<lparr>ideFraction = Fin 1, isMaxIDE = True, ideNFraction = Fin 1, isMaxIDEN = True,
                bthmd_energy = 3, bthmd_numElectrons = 1\<rparr>\<rparr>]"
    by (simp add: eval_defs)
  from lowest_particle_bound [where HitToTrackID = id and m = Map.empty, OF h1 h2 h3 h4 h5 h6]
  have "find_mcparticle ?ps 5 Map.empty 5 = Some 0" unfolding k by simp
  with e show ?thesis by simp
qed

end
